theory Spec2Isabelle
  imports Main
begin

section \<open>Loggy: the asynchronous logger of Logger.h\<close>

text \<open>
  The header declares its members with a trailing underscore (\<open>level_\<close>, \<open>max_\<close>),
  which is not a legal name here, so each field carries the source name followed by a
  letter for its class: \<open>_sq\<close> for \<open>SafeQueue\<close>, \<open>_o\<close> for \<open>Output\<close>, \<open>_ll\<close> for
  \<open>LastLog\<close> and \<open>_l\<close> for \<open>Log\<close>.

  Strings (\<open>string\<close>, \<open>wstring\<close>, \<open>const char*\<close>) are character lists, \<open>time_t\<close> is an
  integer number of seconds, \<open>int\<close> is an integer (levels and line numbers are only
  compared and printed), \<open>size_t\<close> is a natural number (the counters only count
  elements of queues that are held in memory).
\<close>

type_synonym wstring = string
type_synonym time_t = int

subsection \<open>Constants and the level table\<close>

definition DEFAULT_BUF_CNT :: int where "DEFAULT_BUF_CNT = 1000"
definition DEFAULT_TIME_FMT :: string where "DEFAULT_TIME_FMT = ''%Y%m%d.%H%M%S''"
definition DROP_NOTIFY_SECONDS :: int where "DROP_NOTIFY_SECONDS = 5"
definition FLUSH_SECONDS :: int where "FLUSH_SECONDS = 1"

definition LINVALID :: int where "LINVALID = 0"
definition LTRACE :: int where "LTRACE = 9"
definition LDEBUG :: int where "LDEBUG = 10"
definition LINFO :: int where "LINFO = 20"
definition LERROR :: int where "LERROR = 40"
definition LWARN :: int where "LWARN = 30"
definition LCRITICAL :: int where "LCRITICAL = 50"
definition LMAX :: int where "LMAX = 50"

text \<open>The global \<open>unordered_map<int, string> levelNames_\<close> as it is initialised.\<close>

definition levelNames_init :: "int \<rightharpoonup> string" where
  "levelNames_init = map_of
     [(LINVALID, ''INVALID''), (LTRACE, ''TRACE''), (LDEBUG, ''DEBUG''), (LINFO, ''INFO''),
      (LERROR, ''ERROR''), (LWARN, ''WARN''), (LCRITICAL, ''CRITICAL'')]"

text \<open>
  \<open>difftime(a, b)\<close> is the difference \<open>a - b\<close> in seconds; both thresholds it is compared
  with are whole numbers, so the comparison is one of integers.
\<close>

definition difftime :: "time_t \<Rightarrow> time_t \<Rightarrow> int" where
  "difftime t1 t0 = t1 - t0"

text \<open>Decimal output of \<open>operator<<\<close> for \<open>size_t\<close> and \<open>int\<close>.\<close>

definition digit :: "nat \<Rightarrow> char" where
  "digit d = ''0123456789'' ! d"

fun show_nat :: "nat \<Rightarrow> string" where
  "show_nat n = (if n < 10 then [digit n] else show_nat (n div 10) @ [digit (n mod 10)])"

declare show_nat.simps [simp del]

definition show_int :: "int \<Rightarrow> string" where
  "show_int i = (if i < 0 then CHR ''-'' # show_nat (nat (- i)) else show_nat (nat i))"

text \<open>
  The conversion of an \<open>int\<close> argument to the \<open>size_t\<close> member \<open>max_\<close> (64 bits): a
  negative depth becomes a very large one.
\<close>

definition size_t_of_int :: "int \<Rightarrow> nat" where
  "size_t_of_int i = nat (i mod 2 ^ 64)"

subsection \<open>SafeQueue\<close>

text \<open>
  The queue \<open>q\<close> with its front at the head of the list, and the quit flag \<open>x\<close>. The mutex
  and the condition variable have no state of their own in a model where each member
  function runs as one step; a call that waits on the condition variable is a call that
  cannot return in the present state, and yields \<open>None\<close>.
\<close>

record 'a SafeQueue =
  q_sq :: "'a list"
  x_sq :: bool

definition SafeQueue_init :: "'a SafeQueue" where
  "SafeQueue_init = \<lparr>q_sq = [], x_sq = False\<rparr>"

definition push :: "'a \<Rightarrow> 'a SafeQueue \<Rightarrow> 'a SafeQueue" where
  "push t sq = sq\<lparr>q_sq := q_sq sq @ [t]\<rparr>"

text \<open>
  \<open>pop\<close>: the first argument is the value-initialised \<open>T()\<close> (the empty string for the
  queue of a sink). \<open>None\<close>: the caller stays in \<open>c.wait\<close>.
\<close>

definition pop :: "'a \<Rightarrow> 'a SafeQueue \<Rightarrow> ('a \<times> 'a SafeQueue) option" where
  "pop dflt sq =
     (if \<not> x_sq sq \<and> q_sq sq = [] then None
      else if x_sq sq then Some (dflt, sq)
      else (case q_sq sq of
              [] \<Rightarrow> None
            | val # rest \<Rightarrow> Some (val, sq\<lparr>q_sq := rest\<rparr>)))"

definition size_sq :: "'a SafeQueue \<Rightarrow> nat" where
  "size_sq sq = length (q_sq sq)"

definition join :: "'a SafeQueue \<Rightarrow> 'a SafeQueue option" where
  "join sq = (if q_sq sq \<noteq> [] then None else Some sq)"

definition drain :: "'a SafeQueue \<Rightarrow> nat \<times> 'a SafeQueue" where
  "drain sq = (length (q_sq sq), sq\<lparr>q_sq := []\<rparr>)"

definition quit :: "'a SafeQueue \<Rightarrow> nat \<times> 'a SafeQueue" where
  "quit sq = drain (sq\<lparr>x_sq := True\<rparr>)"

text \<open>A call of a member function of the queue by any thread, and what it leaves.\<close>

datatype 'a queue_call = Push 'a | Pop | Size | Join | Drain | Quit

fun call :: "'a \<Rightarrow> 'a queue_call \<Rightarrow> 'a SafeQueue \<Rightarrow> 'a SafeQueue" where
  "call dflt (Push t) sq = push t sq"
| "call dflt Pop sq = (case pop dflt sq of None \<Rightarrow> sq | Some (v, sq') \<Rightarrow> sq')"
| "call dflt Size sq = sq"
| "call dflt Join sq = sq"
| "call dflt Drain sq = snd (drain sq)"
| "call dflt Quit sq = snd (quit sq)"

fun calls :: "'a \<Rightarrow> 'a queue_call list \<Rightarrow> 'a SafeQueue \<Rightarrow> 'a SafeQueue" where
  "calls dflt [] sq = sq"
| "calls dflt (c # cs) sq = calls dflt cs (call dflt c sq)"

subsection \<open>timestamp\<close>

text \<open>
  \<open>timestamp(format, rawtime)\<close> is \<open>strftime\<close> on the local time of \<open>rawtime\<close>. The
  calendar and the time zone belong to the C library, so every function that prints a
  time takes the rendering \<open>tsf\<close> as its first argument. Every function that reads the
  wall clock with \<open>time(&t)\<close> takes the value read as the argument \<open>now\<close>.
\<close>

type_synonym timestamp = "string \<Rightarrow> time_t \<Rightarrow> string"

subsection \<open>Output\<close>

text \<open>
  The worker thread of a sink, between two of its steps: where it stands in
  \<open>Output::worker\<close> and its two locals. \<open>Popped t\<close> is the point after \<open>queue_.pop()\<close>
  has returned \<open>t\<close> and before the test \<open>if (alive_)\<close>; \<open>Writing t\<close> is the point after
  that test has found \<open>alive_\<close> true and before \<open>wstream_ << t << std::endl\<close>. A read or
  a write of \<open>alive_\<close> or of the flag \<open>x\<close> is one step.
\<close>

datatype wpc = LoopTest | InPop | Popped wstring | Writing wstring | Finished

record worker =
  pc_w :: wpc
  written_w :: int
  lastFlush_w :: time_t

text \<open>
  \<open>wstream_o\<close> holds the lines the sink has written to its destination, oldest first;
  each was written as \<open>wstream_ << t << std::endl\<close>.
\<close>

record Output =
  queue_o :: "wstring SafeQueue"
  wstream_o :: "wstring list"
  max_o :: nat
  level_o :: int
  dropped_o :: nat
  alive_o :: bool
  firstDrop_o :: time_t
  thread_o :: worker

definition Output_ctor :: "int \<Rightarrow> int \<Rightarrow> Output" where
  "Output_ctor level mx =
     \<lparr>queue_o = SafeQueue_init, wstream_o = [], max_o = size_t_of_int mx, level_o = level,
      dropped_o = 0, alive_o = True, firstDrop_o = 0,
      thread_o = \<lparr>pc_w = LoopTest, written_w = 0, lastFlush_w = 0\<rparr>\<rparr>"

definition dropped_line :: "timestamp \<Rightarrow> time_t \<Rightarrow> nat \<Rightarrow> wstring" where
  "dropped_line tsf now n = tsf DEFAULT_TIME_FMT now @ '' dropped '' @ show_nat n @ '' entries''"

definition logDropped :: "timestamp \<Rightarrow> time_t \<Rightarrow> Output \<Rightarrow> Output" where
  "logDropped tsf now out =
     out\<lparr>queue_o := push (dropped_line tsf now (dropped_o out)) (queue_o out), dropped_o := 0\<rparr>"

definition add :: "timestamp \<Rightarrow> time_t \<Rightarrow> wstring \<Rightarrow> time_t \<Rightarrow> Output \<Rightarrow> Output" where
  "add tsf now str t out =
     (if alive_o out then
        (if max_o out = 0 \<or> size_sq (queue_o out) < max_o out then
           out\<lparr>queue_o := push str (queue_o out)\<rparr>
         else
           (let out1 = out\<lparr>dropped_o := dropped_o out + 1\<rparr> in
            if dropped_o out1 = 1 then out1\<lparr>firstDrop_o := t\<rparr>
            else if difftime t (firstDrop_o out1) > DROP_NOTIFY_SECONDS then logDropped tsf now out1
            else out1))
      else out)"

text \<open>\<open>wait\<close>: \<open>queue_.join()\<close>, then a flush, which leaves the written lines as they are.\<close>

definition wait :: "Output \<Rightarrow> Output option" where
  "wait out = (case join (queue_o out) of None \<Rightarrow> None | Some sq \<Rightarrow> Some (out\<lparr>queue_o := sq\<rparr>))"

text \<open>
  One step of the worker thread. \<open>None\<close>: the thread cannot move (it waits in \<open>pop\<close>, or
  it has left \<open>worker\<close>). The test \<open>if (alive_)\<close> after \<open>pop\<close> and the write that follows
  it are two steps: another thread may clear \<open>alive_\<close> between them.
\<close>

definition worker_step :: "time_t \<Rightarrow> Output \<Rightarrow> Output option" where
  "worker_step now out =
     (let w = thread_o out in
      case pc_w w of
        LoopTest \<Rightarrow>
          (if alive_o out then
             (let w1 = (if size_sq (queue_o out) = 0 \<and> written_w w > 0 then
                          (if difftime now (lastFlush_w w) > FLUSH_SECONDS
                           then w\<lparr>lastFlush_w := now, written_w := 0\<rparr> else w)
                        else w)
              in Some (out\<lparr>thread_o := w1\<lparr>pc_w := InPop\<rparr>\<rparr>))
           else Some (out\<lparr>thread_o := w\<lparr>pc_w := Finished\<rparr>\<rparr>))
      | InPop \<Rightarrow>
          (case pop [] (queue_o out) of
             None \<Rightarrow> None
           | Some (t, sq) \<Rightarrow> Some (out\<lparr>queue_o := sq, thread_o := w\<lparr>pc_w := Popped t\<rparr>\<rparr>))
      | Popped t \<Rightarrow>
          (if alive_o out then Some (out\<lparr>thread_o := w\<lparr>pc_w := Writing t\<rparr>\<rparr>)
           else Some (out\<lparr>thread_o := w\<lparr>pc_w := LoopTest\<rparr>\<rparr>))
      | Writing t \<Rightarrow>
          Some (out\<lparr>wstream_o := wstream_o out @ [t],
                    thread_o := w\<lparr>written_w := written_w w + 1, pc_w := LoopTest\<rparr>\<rparr>)
      | Finished \<Rightarrow> None)"

text \<open>
  The thread that runs \<open>~Output\<close>, between two of its steps: before \<open>alive_ = false\<close>,
  before \<open>x = true\<close> (the first statement of \<open>quit\<close>, outside the lock), before
  \<open>drain()\<close> and the addition of its result to \<open>dropped_\<close>, before
  \<open>if (dropped_) logDropped()\<close>, before \<open>thread_.join()\<close>, and after it. The destructor
  holds no lock across its statements, so the worker may step between any two of them.
  \<open>None\<close>: the thread cannot move (the worker has not left \<open>worker\<close> yet, or the
  destructor has returned).
\<close>

datatype dpc = AtAlive | AtQuit | AtDrain | AtLog | AtJoin | Gone

definition dtor_step :: "timestamp \<Rightarrow> time_t \<Rightarrow> dpc \<Rightarrow> Output \<Rightarrow> (dpc \<times> Output) option" where
  "dtor_step tsf now d out =
     (case d of
        AtAlive \<Rightarrow> Some (AtQuit, out\<lparr>alive_o := False\<rparr>)
      | AtQuit \<Rightarrow> Some (AtDrain, out\<lparr>queue_o := (queue_o out)\<lparr>x_sq := True\<rparr>\<rparr>)
      | AtDrain \<Rightarrow>
          (let (n, sq) = drain (queue_o out)
           in Some (AtLog, out\<lparr>queue_o := sq, dropped_o := dropped_o out + n\<rparr>))
      | AtLog \<Rightarrow> Some (AtJoin, if dropped_o out \<noteq> 0 then logDropped tsf now out else out)
      | AtJoin \<Rightarrow> (if pc_w (thread_o out) = Finished then Some (Gone, out) else None)
      | Gone \<Rightarrow> None)"

text \<open>
  The two threads of a sink that is being destroyed, interleaved: the schedule says whose
  turn each step is, and a thread that cannot move on its turn leaves the state as it is.
\<close>

datatype turn = Worker | Dtor

fun sys_step :: "timestamp \<Rightarrow> time_t \<Rightarrow> turn \<Rightarrow> dpc \<times> Output \<Rightarrow> dpc \<times> Output" where
  "sys_step tsf now Worker (d, out) =
     (case worker_step now out of None \<Rightarrow> (d, out) | Some out' \<Rightarrow> (d, out'))"
| "sys_step tsf now Dtor (d, out) =
     (case dtor_step tsf now d out of None \<Rightarrow> (d, out) | Some s \<Rightarrow> s)"

fun run :: "timestamp \<Rightarrow> time_t \<Rightarrow> turn list \<Rightarrow> dpc \<times> Output \<Rightarrow> dpc \<times> Output" where
  "run tsf now [] s = s"
| "run tsf now (u # us) s = run tsf now us (sys_step tsf now u s)"

text \<open>
  \<open>~Output\<close> under a schedule: the sink as the destructor leaves it, or \<open>None\<close> when the
  destructor has not returned by the end of the schedule.
\<close>

definition Output_dtor :: "timestamp \<Rightarrow> time_t \<Rightarrow> turn list \<Rightarrow> Output \<Rightarrow> Output option" where
  "Output_dtor tsf now sched out =
     (let (d, out') = run tsf now sched (AtAlive, out) in if d = Gone then Some out' else None)"

text \<open>
  The record the worker holds after it has found \<open>alive_\<close> true and before it has written
  the record.
\<close>

definition inflight :: "Output \<Rightarrow> wstring list" where
  "inflight out = (case pc_w (thread_o out) of Writing t \<Rightarrow> [t] | _ \<Rightarrow> [])"

text \<open>
  What holds of a sink from the step \<open>alive_ = false\<close> of its destructor on, in terms of
  the sink \<open>out0\<close> as it was before that step: the worker writes nothing but the record it
  held in flight, it takes at most one record off the queue, and only before \<open>quit\<close>, and
  the queue ends with nothing in it but the line about the dropped records.
\<close>

definition teardown_inv :: "timestamp \<Rightarrow> time_t \<Rightarrow> Output \<Rightarrow> dpc \<times> Output \<Rightarrow> bool" where
  "teardown_inv tsf now out0 s =
     (let d = fst s; out = snd s; pc = pc_w (thread_o out);
          N = dropped_o out0 + length (q_sq (queue_o out0));
          all = (dropped_o out + length (q_sq (queue_o out)) = N);
          but_one = (dropped_o out + length (q_sq (queue_o out)) + 1 = N)
      in \<not> alive_o out
       \<and> (case pc of
            Writing t \<Rightarrow> inflight out0 = [t] \<and> wstream_o out = wstream_o out0
          | _ \<Rightarrow> wstream_o out = wstream_o out0 @ inflight out0)
       \<and> (case d of
            AtAlive \<Rightarrow> False
          | AtQuit \<Rightarrow> dropped_o out = dropped_o out0 \<and> (all \<or> but_one \<and> pc \<noteq> InPop)
          | AtDrain \<Rightarrow> x_sq (queue_o out) \<and> dropped_o out = dropped_o out0
                       \<and> (all \<or> but_one \<and> pc \<noteq> InPop)
          | AtLog \<Rightarrow> x_sq (queue_o out) \<and> q_sq (queue_o out) = [] \<and> (all \<or> but_one)
          | AtJoin \<Rightarrow> x_sq (queue_o out) \<and> dropped_o out = 0
                      \<and> (q_sq (queue_o out) = (if N = 0 then [] else [dropped_line tsf now N])
                          \<or> 0 < N \<and> q_sq (queue_o out) =
                               (if N = 1 then [] else [dropped_line tsf now (N - 1)]))
          | Gone \<Rightarrow> x_sq (queue_o out) \<and> dropped_o out = 0 \<and> pc = Finished
                      \<and> (q_sq (queue_o out) = (if N = 0 then [] else [dropped_line tsf now N])
                          \<or> 0 < N \<and> q_sq (queue_o out) =
                               (if N = 1 then [] else [dropped_line tsf now (N - 1)]))))"

text \<open>
  Successive calls of \<open>add\<close> on one sink with no step of its worker between them; each
  call comes with its record, the time of the record, and the clock at the call.
\<close>

fun adds :: "timestamp \<Rightarrow> (wstring \<times> time_t \<times> time_t) list \<Rightarrow> Output \<Rightarrow> Output" where
  "adds tsf [] out = out"
| "adds tsf ((str, t, now) # rs) out = adds tsf rs (add tsf now str t out)"

subsection \<open>Log\<close>

record LastLog =
  ws_ll :: wstring
  tm_ll :: time_t

text \<open>
  The members of the singleton \<open>Log\<close>, followed by the two pieces of state outside it
  that its member functions use: the calling thread's \<open>thread_local LastLog ll_\<close> and the
  global table \<open>levelNames_\<close>.
\<close>

record Log =
  level_l :: int
  trigFrom_l :: int
  trigTo_l :: int
  trigCnt_l :: int
  timeFormat_l :: string
  outputs_l :: "Output list"
  default_output_l :: Output
  buffer_l :: "wstring list"
  lastLog_l :: LastLog
  levelNames_l :: "int \<rightharpoonup> string"

definition Log_ctor :: Log where
  "Log_ctor =
     \<lparr>level_l = LINFO, trigFrom_l = LINVALID, trigTo_l = LINVALID, trigCnt_l = LINVALID,
      timeFormat_l = DEFAULT_TIME_FMT, outputs_l = [], default_output_l = Output_ctor LINFO 1,
      buffer_l = [], lastLog_l = \<lparr>ws_ll = [], tm_ll = 0\<rparr>, levelNames_l = levelNames_init\<rparr>"

definition isLevel :: "int \<Rightarrow> Log \<Rightarrow> bool" where
  "isLevel level s = (level \<ge> level_l s)"

definition addOutput :: "int \<Rightarrow> int \<Rightarrow> Log \<Rightarrow> Log" where
  "addOutput level bufferSize s = s\<lparr>outputs_l := outputs_l s @ [Output_ctor level bufferSize]\<rparr>"

definition setTrigger :: "int \<Rightarrow> int \<Rightarrow> int \<Rightarrow> Log \<Rightarrow> Log" where
  "setTrigger levelFrom levelTo lookbackCount s =
     s\<lparr>trigFrom_l := levelFrom, trigTo_l := levelTo, trigCnt_l := lookbackCount\<rparr>"

definition setLevel :: "int \<Rightarrow> Log \<Rightarrow> Log" where
  "setLevel level s = s\<lparr>level_l := level\<rparr>"

text \<open>
  \<open>strrchr(s, c)\<close>: the tail of \<open>s\<close> that starts at the last \<open>c\<close>, or \<open>None\<close> for the null
  pointer.
\<close>

fun strrchr :: "string \<Rightarrow> char \<Rightarrow> string option" where
  "strrchr [] c = None"
| "strrchr (a # s) c =
     (case strrchr s c of
        Some r \<Rightarrow> Some r
      | None \<Rightarrow> if a = c then Some (a # s) else None)"

definition basename :: "string \<Rightarrow> string" where
  "basename file =
     (let b = strrchr file (CHR 0x5C);
          b = (if b = None then strrchr file (CHR ''/'') else b)
      in case b of Some r \<Rightarrow> tl r | None \<Rightarrow> file)"

text \<open>
  \<open>levelname\<close> is \<open>levelNames_[level]\<close>: \<open>operator[]\<close> of an \<open>unordered_map\<close> inserts
  a value-initialised string under a key it does not hold and returns that.
\<close>

definition levelname :: "int \<Rightarrow> (int \<rightharpoonup> string) \<Rightarrow> string \<times> (int \<rightharpoonup> string)" where
  "levelname level names =
     (case names level of
        Some n \<Rightarrow> (n, names)
      | None \<Rightarrow> ([], names(level \<mapsto> [])))"

definition writer :: "timestamp \<Rightarrow> time_t \<Rightarrow> int \<Rightarrow> string \<Rightarrow> int \<Rightarrow> Log \<Rightarrow> Log" where
  "writer tsf now level file line s =
     (let (name, names) = levelname level (levelNames_l s)
      in s\<lparr>lastLog_l :=
             \<lparr>ws_ll = tsf (timeFormat_l s) now @ '' '' @ basename file @ '':'' @ show_int line
                       @ '' '' @ name @ '' '',
              tm_ll = now\<rparr>,
           levelNames_l := names\<rparr>)"

text \<open>\<open>writer(...) << msg\<close>: the message is appended to the staged text.\<close>

definition insert_msg :: "wstring \<Rightarrow> Log \<Rightarrow> Log" where
  "insert_msg msg s = s\<lparr>lastLog_l := (lastLog_l s)\<lparr>ws_ll := ws_ll (lastLog_l s) @ msg\<rparr>\<rparr>"

text \<open>The loop \<open>for (auto& out : outputs_) out.add(s, ll.tm)\<close>, from the front of the deque.\<close>

fun fan_out :: "timestamp \<Rightarrow> time_t \<Rightarrow> wstring \<Rightarrow> time_t \<Rightarrow> Output list \<Rightarrow> Output list" where
  "fan_out tsf now str t [] = []"
| "fan_out tsf now str t (out # outs) = add tsf now str t out # fan_out tsf now str t outs"

definition queue :: "timestamp \<Rightarrow> time_t \<Rightarrow> Log \<Rightarrow> Log" where
  "queue tsf now s =
     (let ll = lastLog_l s; str = ws_ll ll in
      if outputs_l s = [] then
        s\<lparr>default_output_l := add tsf now str (tm_ll ll) (default_output_l s)\<rparr>
      else
        s\<lparr>outputs_l := fan_out tsf now str (tm_ll ll) (outputs_l s)\<rparr>)"

text \<open>
  The macro \<open>LOGL(level, msg)\<close> at source position \<open>file\<close>, \<open>line\<close>; \<open>now\<close> is the clock
  read by \<open>writer\<close>, \<open>now'\<close> the clock during \<open>queue\<close>.
\<close>

definition LOGL :: "timestamp \<Rightarrow> time_t \<Rightarrow> time_t \<Rightarrow> int \<Rightarrow> string \<Rightarrow> int \<Rightarrow> wstring \<Rightarrow> Log \<Rightarrow> Log" where
  "LOGL tsf now now' level file line msg s =
     (if isLevel level s then queue tsf now' (insert_msg msg (writer tsf now level file line s))
      else s)"

section \<open>Properties\<close>

subsection \<open>The queue after quit\<close>

lemma x_call: "x_sq sq \<Longrightarrow> x_sq (call dflt c sq)"
  by (cases c) (auto simp: push_def pop_def drain_def quit_def split: option.splits list.splits)

lemma x_calls: "x_sq sq \<Longrightarrow> x_sq (calls dflt cs sq)"
  by (induction cs arbitrary: sq) (simp_all add: x_call)

lemma pop_quit: "x_sq sq \<Longrightarrow> pop dflt sq = Some (dflt, sq)"
  by (simp add: pop_def)

text \<open>
  C4. \<open>quit\<close> sets the flag, empties the queue and returns the number of elements it
  discarded. The flag stays set through every later call of a member function
  (\<open>calls dflt cs\<close> runs any sequence \<open>cs\<close> of them), and each \<open>pop\<close> after it returns the
  value-initialised element at once, leaving the queue as it is. Before \<open>quit\<close>, \<open>pop\<close>
  on a queue that is not empty returns the front element and removes it.
\<close>

theorem C4_quit_then_pop:
  "x_sq (snd (quit sq)) \<and> q_sq (snd (quit sq)) = [] \<and> fst (quit sq) = length (q_sq sq)
   \<and> x_sq (calls dflt cs (snd (quit sq)))
   \<and> pop dflt (calls dflt cs (snd (quit sq))) = Some (dflt, calls dflt cs (snd (quit sq)))
   \<and> (\<not> x_sq sq \<and> q_sq sq \<noteq> [] \<longrightarrow>
        pop dflt sq = Some (hd (q_sq sq), sq\<lparr>q_sq := tl (q_sq sq)\<rparr>))"
proof -
  have sig: "x_sq (snd (quit sq))"
    by (simp add: quit_def drain_def)
  have later: "x_sq (calls dflt cs (snd (quit sq)))"
    using sig by (rule x_calls)
  have front: "\<not> x_sq sq \<and> q_sq sq \<noteq> [] \<longrightarrow>
        pop dflt sq = Some (hd (q_sq sq), sq\<lparr>q_sq := tl (q_sq sq)\<rparr>)"
    by (cases "q_sq sq") (simp_all add: pop_def)
  show ?thesis
    using sig later front pop_quit [OF later] by (simp add: quit_def drain_def)
qed

theorem C4_quit_then_pop_witness:
  "pop (0::nat) \<lparr>q_sq = [7, 8, 9], x_sq = False\<rparr> = Some (7, \<lparr>q_sq = [8, 9], x_sq = False\<rparr>)
   \<and> quit \<lparr>q_sq = [7, 8, 9::nat], x_sq = False\<rparr> = (3, \<lparr>q_sq = [], x_sq = True\<rparr>)
   \<and> pop 0 (calls 0 [Push 4, Pop, Join] (snd (quit \<lparr>q_sq = [7, 8, 9], x_sq = False\<rparr>)))
       = Some (0, \<lparr>q_sq = [4], x_sq = True\<rparr>)"
  using C4_quit_then_pop [of "\<lparr>q_sq = [7, 8, 9::nat], x_sq = False\<rparr>" 0 "[Push 4, Pop, Join]"]
  by (simp add: quit_def drain_def push_def pop_def)

subsection \<open>Level filtering\<close>

lemma fan_out_map: "fan_out tsf now str t outs = map (add tsf now str t) outs"
  by (induction outs) simp_all

lemma add_accepts:
  "alive_o out \<Longrightarrow> max_o out = 0 \<or> size_sq (queue_o out) < max_o out \<Longrightarrow>
   add tsf now str t out = out\<lparr>queue_o := push str (queue_o out)\<rparr>"
  by (simp add: add_def)

lemma add_level_o:
  "add tsf now str t (out\<lparr>level_o := l\<rparr>) = (add tsf now str t out)\<lparr>level_o := l\<rparr>"
  by (simp add: add_def logDropped_def Let_def)

lemma LOGL_below: "level < level_l s \<Longrightarrow> LOGL tsf now now' level file line msg s = s"
  by (simp add: LOGL_def isLevel_def)

text \<open>
  C1, as the code has it. A record emitted through \<open>LOGL\<close> changes the queue of a sink
  (a configured one, or the default one) only if its level is at least the global level.
  The threshold of the sink itself is stored by the constructor and read nowhere:
  \<open>add\<close> does the same to two sinks that differ in their threshold only.
\<close>

theorem C1_global_level_is_the_only_filter:
  "((q_sq (queue_o (default_output_l (LOGL tsf now now' level file line msg s)))
        \<noteq> q_sq (queue_o (default_output_l s))
     \<or> map (q_sq \<circ> queue_o) (outputs_l (LOGL tsf now now' level file line msg s))
        \<noteq> map (q_sq \<circ> queue_o) (outputs_l s))
    \<longrightarrow> level \<ge> level_l s)
   \<and> add tsf now str t (out\<lparr>level_o := l\<rparr>) = (add tsf now str t out)\<lparr>level_o := l\<rparr>"
proof -
  let ?s' = "LOGL tsf now now' level file line msg s"
  have gate: "level \<ge> level_l s" if "?s' \<noteq> s"
  proof (rule ccontr)
    assume "\<not> level_l s \<le> level"
    then have "level < level_l s" by simp
    from LOGL_below [OF this] that show False by simp
  qed
  show ?thesis
  proof (intro conjI impI)
    assume "q_sq (queue_o (default_output_l ?s')) \<noteq> q_sq (queue_o (default_output_l s))
        \<or> map (q_sq \<circ> queue_o) (outputs_l ?s') \<noteq> map (q_sq \<circ> queue_o) (outputs_l s)"
    then have "?s' \<noteq> s" by auto
    then show "level \<ge> level_l s" by (rule gate)
  next
    show "add tsf now str t (out\<lparr>level_o := l\<rparr>) = (add tsf now str t out)\<lparr>level_o := l\<rparr>"
      by (rule add_level_o)
  qed
qed

theorem C1_global_level_is_the_only_filter_witness:
  "map (q_sq \<circ> queue_o)
     (outputs_l (LOGL (\<lambda>fmt t. ''T'') 0 0 LERROR ''main.cpp'' 7 ''hello'' (addOutput LDEBUG 1000 Log_ctor)))
     \<noteq> map (q_sq \<circ> queue_o) (outputs_l (addOutput LDEBUG 1000 Log_ctor))
   \<and> LERROR \<ge> level_l (addOutput LDEBUG 1000 Log_ctor)"
  using C1_global_level_is_the_only_filter [of "\<lambda>fmt t. ''T''" 0 0 LERROR "''main.cpp''" 7 "''hello''"
      "addOutput LDEBUG 1000 Log_ctor"]
  by (simp add: LOGL_def isLevel_def addOutput_def Log_ctor_def LERROR_def LINFO_def queue_def
      insert_msg_def writer_def levelname_def levelNames_init_def Output_ctor_def add_def
      size_t_of_int_def SafeQueue_init_def size_sq_def push_def Let_def LDEBUG_def LINVALID_def
      LTRACE_def LWARN_def LCRITICAL_def)

text \<open>
  The global level is \<open>LDEBUG\<close> and the one configured sink was constructed with the
  threshold \<open>LINFO\<close>: a record of level \<open>LDEBUG\<close> is put into the queue of that sink.
\<close>

theorem C1_sink_threshold_not_applied:
  "LDEBUG < LINFO
   \<and> map level_o (outputs_l (addOutput LINFO 1000 (setLevel LDEBUG Log_ctor))) = [LINFO]
   \<and> map (q_sq \<circ> queue_o)
       (outputs_l (LOGL (\<lambda>fmt t. ''T'') 0 0 LDEBUG ''main.cpp'' 7 ''hello''
          (addOutput LINFO 1000 (setLevel LDEBUG Log_ctor))))
     = [ [''T main.cpp:7 DEBUG hello''] ]"
  by (simp add: LOGL_def isLevel_def addOutput_def setLevel_def Log_ctor_def LERROR_def LINFO_def
      queue_def insert_msg_def writer_def levelname_def levelNames_init_def Output_ctor_def add_def
      size_t_of_int_def SafeQueue_init_def size_sq_def push_def Let_def LDEBUG_def LINVALID_def
      LTRACE_def LWARN_def LCRITICAL_def basename_def show_int_def show_nat.simps digit_def)

subsection \<open>Emission\<close>

lemma writer_lastLog:
  "lastLog_l (writer tsf now level file line s) =
     \<lparr>ws_ll = tsf (timeFormat_l s) now @ '' '' @ basename file @ '':'' @ show_int line @ '' ''
              @ fst (levelname level (levelNames_l s)) @ '' '',
      tm_ll = now\<rparr>"
  by (simp add: writer_def split: prod.splits)

lemma writer_other:
  "outputs_l (writer tsf now level file line s) = outputs_l s
   \<and> default_output_l (writer tsf now level file line s) = default_output_l s
   \<and> level_l (writer tsf now level file line s) = level_l s"
  by (simp add: writer_def split: prod.splits)

lemma insert_msg_simps:
  "lastLog_l (insert_msg msg s) = (lastLog_l s)\<lparr>ws_ll := ws_ll (lastLog_l s) @ msg\<rparr>"
  "outputs_l (insert_msg msg s) = outputs_l s"
  "default_output_l (insert_msg msg s) = default_output_l s"
  by (simp_all add: insert_msg_def)

lemma queue_simps:
  "lastLog_l (queue tsf now s) = lastLog_l s"
  "outputs_l s = [] \<Longrightarrow> outputs_l (queue tsf now s) = []"
  "outputs_l s = [] \<Longrightarrow> default_output_l (queue tsf now s) =
      add tsf now (ws_ll (lastLog_l s)) (tm_ll (lastLog_l s)) (default_output_l s)"
  "outputs_l s \<noteq> [] \<Longrightarrow> outputs_l (queue tsf now s) =
      map (add tsf now (ws_ll (lastLog_l s)) (tm_ll (lastLog_l s))) (outputs_l s)"
  "outputs_l s \<noteq> [] \<Longrightarrow> default_output_l (queue tsf now s) = default_output_l s"
  by (simp_all add: queue_def Let_def fan_out_map)

text \<open>
  C6. \<open>isLevel\<close> is the comparison with the global level. Below the global level
  \<open>LOGL\<close> leaves the whole state as it is: nothing is formatted into the staged
  record and no queue changes. Otherwise the staged record becomes the prefix made by
  \<open>writer\<close> followed by the message, and \<open>queue\<close> hands it with the time of the record
  to \<open>add\<close> of the default sink, or of every configured sink when there is one. A sink
  that is alive and has room puts the record at the back of its queue.
\<close>

theorem C6_emit_passes_the_global_gate:
  "isLevel level s = (level \<ge> level_l s)
   \<and> (level < level_l s \<longrightarrow> LOGL tsf now now' level file line msg s = s)
   \<and> (level \<ge> level_l s \<longrightarrow>
        lastLog_l (LOGL tsf now now' level file line msg s) =
          \<lparr>ws_ll = tsf (timeFormat_l s) now @ '' '' @ basename file @ '':'' @ show_int line
                   @ '' '' @ fst (levelname level (levelNames_l s)) @ '' '' @ msg,
           tm_ll = now\<rparr>
      \<and> (outputs_l s = [] \<longrightarrow>
           default_output_l (LOGL tsf now now' level file line msg s) =
             add tsf now' (ws_ll (lastLog_l (LOGL tsf now now' level file line msg s))) now
               (default_output_l s))
      \<and> (outputs_l s \<noteq> [] \<longrightarrow>
           outputs_l (LOGL tsf now now' level file line msg s) =
             map (add tsf now' (ws_ll (lastLog_l (LOGL tsf now now' level file line msg s))) now)
               (outputs_l s)))
   \<and> (alive_o out \<and> (max_o out = 0 \<or> size_sq (queue_o out) < max_o out) \<longrightarrow>
        q_sq (queue_o (add tsf now' str now out)) = q_sq (queue_o out) @ [str])"
proof (intro conjI impI)
  show "isLevel level s = (level \<ge> level_l s)"
    by (simp add: isLevel_def)
next
  assume "level < level_l s"
  then show "LOGL tsf now now' level file line msg s = s"
    by (rule LOGL_below)
next
  assume "level \<ge> level_l s"
  then have above: "LOGL tsf now now' level file line msg s =
      queue tsf now' (insert_msg msg (writer tsf now level file line s))"
    by (simp add: LOGL_def isLevel_def)
  show staged: "lastLog_l (LOGL tsf now now' level file line msg s) =
          \<lparr>ws_ll = tsf (timeFormat_l s) now @ '' '' @ basename file @ '':'' @ show_int line
                   @ '' '' @ fst (levelname level (levelNames_l s)) @ '' '' @ msg,
           tm_ll = now\<rparr>"
    by (simp add: above queue_simps(1) insert_msg_simps(1) writer_lastLog)
  {
    assume none: "outputs_l s = []"
    then have "outputs_l (insert_msg msg (writer tsf now level file line s)) = []"
      by (simp add: insert_msg_simps(2) writer_other)
    from queue_simps(3) [OF this]
    show "default_output_l (LOGL tsf now now' level file line msg s) =
             add tsf now' (ws_ll (lastLog_l (LOGL tsf now now' level file line msg s))) now
               (default_output_l s)"
      by (simp add: staged) (simp add: above insert_msg_simps writer_lastLog writer_other)
  }
  {
    assume some: "outputs_l s \<noteq> []"
    then have "outputs_l (insert_msg msg (writer tsf now level file line s)) \<noteq> []"
      by (simp add: insert_msg_simps(2) writer_other)
    from queue_simps(4) [OF this]
    show "outputs_l (LOGL tsf now now' level file line msg s) =
             map (add tsf now' (ws_ll (lastLog_l (LOGL tsf now now' level file line msg s))) now)
               (outputs_l s)"
      by (simp add: staged) (simp add: above insert_msg_simps writer_lastLog writer_other)
  }
next
  assume "alive_o out \<and> (max_o out = 0 \<or> size_sq (queue_o out) < max_o out)"
  then show "q_sq (queue_o (add tsf now' str now out)) = q_sq (queue_o out) @ [str]"
    by (auto simp: add_def push_def)
qed

text \<open>The definitions a concrete run unfolds.\<close>

lemmas eval_defs = LOGL_def isLevel_def addOutput_def setLevel_def Log_ctor_def
  queue_def insert_msg_def writer_def levelname_def levelNames_init_def Output_ctor_def add_def
  logDropped_def dropped_line_def size_t_of_int_def SafeQueue_init_def size_sq_def push_def Let_def
  LINVALID_def LTRACE_def LDEBUG_def LINFO_def LERROR_def LWARN_def LCRITICAL_def
  basename_def show_int_def show_nat.simps digit_def DEFAULT_TIME_FMT_def difftime_def
  DROP_NOTIFY_SECONDS_def

theorem C6_emit_passes_the_global_gate_witness:
  "LERROR \<ge> level_l Log_ctor \<and> outputs_l Log_ctor = []
   \<and> q_sq (queue_o (default_output_l
        (LOGL (\<lambda>fmt t. fmt) 0 0 LERROR ''src/main.cpp'' 7 ''boom'' Log_ctor)))
      = [''%Y%m%d.%H%M%S main.cpp:7 ERROR boom'']
   \<and> LDEBUG < level_l Log_ctor
   \<and> LOGL (\<lambda>fmt t. fmt) 0 0 LDEBUG ''src/main.cpp'' 7 ''boom'' Log_ctor = Log_ctor"
  using C6_emit_passes_the_global_gate [of LERROR Log_ctor "\<lambda>fmt t. fmt" 0 0 "''src/main.cpp''" 7
      "''boom''" "default_output_l Log_ctor" "''%Y%m%d.%H%M%S main.cpp:7 ERROR boom''"]
    C6_emit_passes_the_global_gate [of LDEBUG Log_ctor "\<lambda>fmt t. fmt" 0 0 "''src/main.cpp''" 7
      "''boom''" "default_output_l Log_ctor" "[]"]
  by (simp add: eval_defs)



subsection \<open>Routing\<close>

text \<open>
  C7. With no configured sink \<open>queue\<close> passes the staged record to \<open>add\<close> of the default
  sink and changes nothing else. With configured sinks it passes the record to \<open>add\<close> of
  each of them, the sink at position \<open>i\<close> of the deque becoming the result of its own
  \<open>add\<close>, and leaves the default sink as it is. The loop \<open>fan_out\<close> walks the deque from
  its front, and \<open>addOutput\<close> puts a new sink at the back: the order is that of insertion.
\<close>

theorem C7_queue_routes_to_default_or_configured:
  "(outputs_l s = [] \<longrightarrow>
      queue tsf now s =
        s\<lparr>default_output_l :=
            add tsf now (ws_ll (lastLog_l s)) (tm_ll (lastLog_l s)) (default_output_l s)\<rparr>)
   \<and> (outputs_l s \<noteq> [] \<longrightarrow>
      queue tsf now s =
        s\<lparr>outputs_l := map (add tsf now (ws_ll (lastLog_l s)) (tm_ll (lastLog_l s))) (outputs_l s)\<rparr>
      \<and> default_output_l (queue tsf now s) = default_output_l s
      \<and> length (outputs_l (queue tsf now s)) = length (outputs_l s)
      \<and> (\<forall>i < length (outputs_l s). outputs_l (queue tsf now s) ! i =
            add tsf now (ws_ll (lastLog_l s)) (tm_ll (lastLog_l s)) (outputs_l s ! i)))
   \<and> outputs_l (addOutput level bufferSize s) = outputs_l s @ [Output_ctor level bufferSize]
   \<and> default_output_l (addOutput level bufferSize s) = default_output_l s"
proof (intro conjI impI allI)
  assume "outputs_l s = []"
  then show "queue tsf now s =
        s\<lparr>default_output_l :=
            add tsf now (ws_ll (lastLog_l s)) (tm_ll (lastLog_l s)) (default_output_l s)\<rparr>"
    by (simp add: queue_def Let_def)
next
  assume ne: "outputs_l s \<noteq> []"
  then show "queue tsf now s =
        s\<lparr>outputs_l := map (add tsf now (ws_ll (lastLog_l s)) (tm_ll (lastLog_l s))) (outputs_l s)\<rparr>"
    by (simp add: queue_def Let_def fan_out_map)
  from ne show "default_output_l (queue tsf now s) = default_output_l s"
    by (rule queue_simps(5))
  from ne show "length (outputs_l (queue tsf now s)) = length (outputs_l s)"
    by (simp add: queue_simps(4))
  fix i
  assume "i < length (outputs_l s)"
  with ne show "outputs_l (queue tsf now s) ! i =
            add tsf now (ws_ll (lastLog_l s)) (tm_ll (lastLog_l s)) (outputs_l s ! i)"
    by (simp add: queue_simps(4))
next
  show "outputs_l (addOutput level bufferSize s) = outputs_l s @ [Output_ctor level bufferSize]"
    by (simp add: addOutput_def)
next
  show "default_output_l (addOutput level bufferSize s) = default_output_l s"
    by (simp add: addOutput_def)
qed


theorem C7_queue_routes_to_default_or_configured_witness:
  "outputs_l (insert_msg ''m'' Log_ctor) = []
   \<and> q_sq (queue_o (default_output_l (queue (\<lambda>fmt t. fmt) 0 (insert_msg ''m'' Log_ctor)))) = [''m'']
   \<and> outputs_l (addOutput LERROR 0 (addOutput LDEBUG 5 (insert_msg ''m'' Log_ctor))) \<noteq> []
   \<and> map (\<lambda>out. (level_o out, q_sq (queue_o out)))
        (outputs_l (queue (\<lambda>fmt t. fmt) 0
           (addOutput LERROR 0 (addOutput LDEBUG 5 (insert_msg ''m'' Log_ctor)))))
      = [(LDEBUG, [''m'']), (LERROR, [''m''])]
   \<and> q_sq (queue_o (default_output_l (queue (\<lambda>fmt t. fmt) 0
           (addOutput LERROR 0 (addOutput LDEBUG 5 (insert_msg ''m'' Log_ctor)))))) = []"
proof -
  let ?s = "insert_msg ''m'' Log_ctor"
  let ?s2 = "addOutput LERROR 0 (addOutput LDEBUG 5 ?s)"
  let ?tsf = "\<lambda>(fmt::string) (t::time_t). fmt"
  have none: "outputs_l ?s = []"
    by (simp add: insert_msg_def Log_ctor_def)
  have two: "outputs_l ?s2 \<noteq> []"
    by (simp add: addOutput_def)
  have def: "queue ?tsf 0 ?s =
      ?s\<lparr>default_output_l :=
          add ?tsf 0 (ws_ll (lastLog_l ?s)) (tm_ll (lastLog_l ?s)) (default_output_l ?s)\<rparr>"
    using C7_queue_routes_to_default_or_configured [of ?s ?tsf 0 0 0] none by blast
  have conf: "queue ?tsf 0 ?s2 =
      ?s2\<lparr>outputs_l := map (add ?tsf 0 (ws_ll (lastLog_l ?s2)) (tm_ll (lastLog_l ?s2))) (outputs_l ?s2)\<rparr>"
    using C7_queue_routes_to_default_or_configured [of ?s2 ?tsf 0 0 0] two by blast
  have a: "q_sq (queue_o (default_output_l (queue ?tsf 0 ?s))) = [''m'']"
    unfolding def by (simp add: eval_defs)
  have b: "map (\<lambda>out. (level_o out, q_sq (queue_o out))) (outputs_l (queue ?tsf 0 ?s2))
      = [(LDEBUG, [''m'']), (LERROR, [''m''])]"
    unfolding conf by (simp add: eval_defs)
  have c: "q_sq (queue_o (default_output_l (queue ?tsf 0 ?s2))) = []"
    unfolding conf by (simp add: eval_defs)
  from none two a b c show ?thesis by blast
qed

subsection \<open>The staged record\<close>

lemma add_unbounded:
  "alive_o out \<Longrightarrow> max_o out = 0 \<Longrightarrow>
   add tsf now str t out = out\<lparr>queue_o := push str (queue_o out)\<rparr>"
  by (simp add: add_def)







subsection \<open>The drop policy\<close>

lemma add_full:
  assumes "alive_o out" "0 < max_o out" "max_o out \<le> size_sq (queue_o out)"
  shows "add tsf now str t out =
     (if dropped_o out = 0 then out\<lparr>dropped_o := 1, firstDrop_o := t\<rparr>
      else if difftime t (firstDrop_o out) > DROP_NOTIFY_SECONDS
           then out\<lparr>queue_o := push (dropped_line tsf now (dropped_o out + 1)) (queue_o out),
                    dropped_o := 0\<rparr>
           else out\<lparr>dropped_o := dropped_o out + 1\<rparr>)"
  using assms by (simp add: add_def logDropped_def Let_def)

lemma adds_append: "adds tsf (rs @ rs') out = adds tsf rs' (adds tsf rs out)"
  by (induction rs arbitrary: out) auto

lemma adds_fill:
  "alive_o out \<Longrightarrow> length (q_sq (queue_o out)) + length rs \<le> max_o out \<Longrightarrow>
   adds tsf rs out = out\<lparr>queue_o := (queue_o out)\<lparr>q_sq := q_sq (queue_o out) @ map fst rs\<rparr>\<rparr>"
proof (induction rs arbitrary: out)
  case Nil
  then show ?case by simp
next
  case (Cons r rs)
  obtain str t nw where r: "r = (str, t, nw)"
    by (cases r) auto
  let ?out1 = "out\<lparr>queue_o := push str (queue_o out)\<rparr>"
  from Cons.prems have step: "add tsf nw str t out = ?out1"
    by (simp add: add_def size_sq_def)
  have "alive_o ?out1" "length (q_sq (queue_o ?out1)) + length rs \<le> max_o ?out1"
    using Cons.prems by (simp_all add: push_def)
  from Cons.IH [OF this] show ?case
    by (simp add: r step push_def)
qed

lemma adds_full:
  "alive_o out \<Longrightarrow> 0 < max_o out \<Longrightarrow> max_o out \<le> length (q_sq (queue_o out)) \<Longrightarrow>
   \<exists>ns. q_sq (queue_o (adds tsf rs out)) =
           q_sq (queue_o out) @ map (\<lambda>(nw, n). dropped_line tsf nw n) ns
        \<and> sum_list (map snd ns) + dropped_o (adds tsf rs out) = dropped_o out + length rs"
proof (induction rs arbitrary: out)
  case Nil
  show ?case by simp
next
  case (Cons r rs)
  obtain str t nw where r: "r = (str, t, nw)"
    by (cases r) auto
  let ?out1 = "add tsf nw str t out"
  have full: "max_o out \<le> size_sq (queue_o out)"
    using Cons.prems(3) by (simp add: size_sq_def)
  note step = add_full [OF Cons.prems(1,2) full, of tsf nw str t]
  have keep: "alive_o ?out1" "0 < max_o ?out1" "max_o ?out1 \<le> length (q_sq (queue_o ?out1))"
    using Cons.prems by (simp_all add: step push_def)
  have one: "\<exists>l. q_sq (queue_o ?out1) = q_sq (queue_o out) @ map (\<lambda>(nw, n). dropped_line tsf nw n) l
        \<and> sum_list (map snd l) + dropped_o ?out1 = dropped_o out + 1"
  proof (cases "dropped_o out \<noteq> 0 \<and> difftime t (firstDrop_o out) > DROP_NOTIFY_SECONDS")
    case True
    then have "q_sq (queue_o ?out1) =
        q_sq (queue_o out) @ map (\<lambda>(nw, n). dropped_line tsf nw n) [(nw, dropped_o out + 1)]
        \<and> sum_list (map snd [(nw, dropped_o out + 1)]) + dropped_o ?out1 = dropped_o out + 1"
      by (simp add: step push_def)
    then show ?thesis by blast
  next
    case False
    then have "q_sq (queue_o ?out1) = q_sq (queue_o out) @ map (\<lambda>(nw, n). dropped_line tsf nw n) []
        \<and> sum_list (map snd ([] :: (time_t \<times> nat) list)) + dropped_o ?out1 = dropped_o out + 1"
      by (auto simp: step)
    then show ?thesis by blast
  qed
  then obtain l where l: "q_sq (queue_o ?out1) = q_sq (queue_o out) @ map (\<lambda>(nw, n). dropped_line tsf nw n) l"
        "sum_list (map snd l) + dropped_o ?out1 = dropped_o out + 1"
    by blast
  from Cons.IH [OF keep] obtain ns where ns:
    "q_sq (queue_o (adds tsf rs ?out1)) = q_sq (queue_o ?out1) @ map (\<lambda>(nw, n). dropped_line tsf nw n) ns"
    "sum_list (map snd ns) + dropped_o (adds tsf rs ?out1) = dropped_o ?out1 + length rs"
    by blast
  have "q_sq (queue_o (adds tsf (r # rs) out)) =
          q_sq (queue_o out) @ map (\<lambda>(nw, n). dropped_line tsf nw n) (l @ ns)
        \<and> sum_list (map snd (l @ ns)) + dropped_o (adds tsf (r # rs) out) = dropped_o out + length (r # rs)"
    using l ns by (simp add: r)
  then show ?case by blast
qed

lemma adds_quiet:
  "alive_o out \<Longrightarrow> 0 < max_o out \<Longrightarrow> max_o out \<le> length (q_sq (queue_o out)) \<Longrightarrow>
   dropped_o out \<noteq> 0 \<Longrightarrow>
   \<forall>r \<in> set rs. difftime (fst (snd r)) (firstDrop_o out) \<le> DROP_NOTIFY_SECONDS \<Longrightarrow>
   adds tsf rs out = out\<lparr>dropped_o := dropped_o out + length rs\<rparr>"
proof (induction rs arbitrary: out)
  case Nil
  then show ?case by simp
next
  case (Cons r rs)
  obtain str t nw where r: "r = (str, t, nw)"
    by (cases r) auto
  let ?out1 = "out\<lparr>dropped_o := dropped_o out + 1\<rparr>"
  have full: "max_o out \<le> size_sq (queue_o out)"
    using Cons.prems(3) by (simp add: size_sq_def)
  have step: "add tsf nw str t out = ?out1"
    using Cons.prems(4,5) by (simp add: add_full [OF Cons.prems(1,2) full] r)
  have "alive_o ?out1" "0 < max_o ?out1" "max_o ?out1 \<le> length (q_sq (queue_o ?out1))"
    "dropped_o ?out1 \<noteq> 0"
    "\<forall>r \<in> set rs. difftime (fst (snd r)) (firstDrop_o ?out1) \<le> DROP_NOTIFY_SECONDS"
    using Cons.prems by simp_all
  from Cons.IH [OF this] show ?case
    by (simp add: r step)
qed

lemma adds_fresh_split:
  assumes "alive_o out" "max_o out = M" "q_sq (queue_o out) = []" "length rs = M + K"
  shows "adds tsf rs out =
    adds tsf (drop M rs) (out\<lparr>queue_o := (queue_o out)\<lparr>q_sq := map fst (take M rs)\<rparr>\<rparr>)"
proof -
  have "length (q_sq (queue_o out)) + length (take M rs) \<le> max_o out"
    using assms by simp
  from adds_fill [OF assms(1) this, of tsf] assms(3)
  have "adds tsf (take M rs) out = out\<lparr>queue_o := (queue_o out)\<lparr>q_sq := map fst (take M rs)\<rparr>\<rparr>"
    by simp
  moreover have "adds tsf rs out = adds tsf (drop M rs) (adds tsf (take M rs) out)"
    using adds_append [of tsf "take M rs" "drop M rs" out] by simp
  ultimately show ?thesis by simp
qed

text \<open>
  C3. A sink that is alive, of depth \<open>M > 0\<close>. A call of \<open>add\<close> on a queue of \<open>M\<close> or
  more elements does not enqueue its record and counts one more drop: the first drop of
  a run sets the counter to one and stores the time of its record; a later drop at most
  five seconds after that time only increments the counter; a later drop more than five
  seconds after it enqueues the one line \<open>dropped N entries\<close>, \<open>N\<close> counting this drop
  too, and sets the counter to zero.

  \<open>M + K\<close> calls on a fresh sink with no step of the worker between them: the first \<open>M\<close>
  elements of the queue are the first \<open>M\<close> records, nothing follows them but lines
  about dropped records, and the numbers in these lines and the counter add up to \<open>K\<close>.
  When no record comes more than five seconds after the first dropped one, the queue
  holds the \<open>M\<close> records and nothing else, and the counter is \<open>K\<close>.
\<close>

theorem C3_drop_policy:
  assumes "alive_o out" and "max_o out = M" and "0 < M"
  shows "(M \<le> size_sq (queue_o out) \<longrightarrow>
            (dropped_o out = 0 \<longrightarrow>
               add tsf now str t out = out\<lparr>dropped_o := 1, firstDrop_o := t\<rparr>)
          \<and> (dropped_o out \<noteq> 0 \<and> difftime t (firstDrop_o out) \<le> 5 \<longrightarrow>
               add tsf now str t out = out\<lparr>dropped_o := dropped_o out + 1\<rparr>)
          \<and> (dropped_o out \<noteq> 0 \<and> difftime t (firstDrop_o out) > 5 \<longrightarrow>
               add tsf now str t out =
                 out\<lparr>queue_o := push (dropped_line tsf now (dropped_o out + 1)) (queue_o out),
                     dropped_o := 0\<rparr>))
       \<and> (q_sq (queue_o out) = [] \<and> dropped_o out = 0 \<and> length rs = M + K \<longrightarrow>
            take M (q_sq (queue_o (adds tsf rs out))) = map fst (take M rs)
          \<and> (\<exists>ns. drop M (q_sq (queue_o (adds tsf rs out))) =
                     map (\<lambda>(nw, n). dropped_line tsf nw n) ns
                 \<and> sum_list (map snd ns) + dropped_o (adds tsf rs out) = K)
          \<and> ((\<forall>r \<in> set (drop M rs). difftime (fst (snd r)) (fst (snd (rs ! M))) \<le> 5) \<longrightarrow>
                q_sq (queue_o (adds tsf rs out)) = map fst (take M rs)
              \<and> dropped_o (adds tsf rs out) = K))"
proof (intro conjI impI)
  assume full: "M \<le> size_sq (queue_o out)"
  note step = add_full [OF assms(1), of tsf now str t, unfolded assms(2), OF assms(3) full]
  {
    assume "dropped_o out = 0"
    then show "add tsf now str t out = out\<lparr>dropped_o := 1, firstDrop_o := t\<rparr>"
      by (simp add: step)
  }
  {
    assume "dropped_o out \<noteq> 0 \<and> difftime t (firstDrop_o out) \<le> 5"
    then show "add tsf now str t out = out\<lparr>dropped_o := dropped_o out + 1\<rparr>"
      by (simp add: step DROP_NOTIFY_SECONDS_def)
  }
  {
    assume "dropped_o out \<noteq> 0 \<and> difftime t (firstDrop_o out) > 5"
    then show "add tsf now str t out =
                 out\<lparr>queue_o := push (dropped_line tsf now (dropped_o out + 1)) (queue_o out),
                     dropped_o := 0\<rparr>"
      by (simp add: step DROP_NOTIFY_SECONDS_def)
  }
next
  assume fresh: "q_sq (queue_o out) = [] \<and> dropped_o out = 0 \<and> length rs = M + K"
  let ?outM = "out\<lparr>queue_o := (queue_o out)\<lparr>q_sq := map fst (take M rs)\<rparr>\<rparr>"
  have split: "adds tsf rs out = adds tsf (drop M rs) ?outM"
    using adds_fresh_split [OF assms(1,2)] fresh by blast
  have outM: "alive_o ?outM" "0 < max_o ?outM" "max_o ?outM \<le> length (q_sq (queue_o ?outM))"
    using assms fresh by simp_all
  have lenM: "length (map fst (take M rs)) = M"
    using fresh by simp
  from adds_full [OF outM, of tsf "drop M rs"] obtain ns where ns:
    "q_sq (queue_o (adds tsf rs out)) =
       map fst (take M rs) @ map (\<lambda>(nw, n). dropped_line tsf nw n) ns"
    "sum_list (map snd ns) + dropped_o (adds tsf rs out) = K"
    using fresh by (auto simp: split)
  show "take M (q_sq (queue_o (adds tsf rs out))) = map fst (take M rs)"
    using lenM by (simp add: ns(1))
  have "drop M (q_sq (queue_o (adds tsf rs out))) = map (\<lambda>(nw, n). dropped_line tsf nw n) ns"
    using lenM by (simp add: ns(1))
  with ns(2) show "\<exists>ns. drop M (q_sq (queue_o (adds tsf rs out))) =
                     map (\<lambda>(nw, n). dropped_line tsf nw n) ns
                 \<and> sum_list (map snd ns) + dropped_o (adds tsf rs out) = K"
    by blast
  {
    assume quiet: "\<forall>r \<in> set (drop M rs). difftime (fst (snd r)) (fst (snd (rs ! M))) \<le> 5"
    have both: "q_sq (queue_o (adds tsf rs out)) = map fst (take M rs)
              \<and> dropped_o (adds tsf rs out) = K"
    proof (cases K)
      case 0
      then have "drop M rs = []"
        using fresh by simp
      then show ?thesis
        using fresh 0 by (simp add: split)
    next
      case (Suc k)
      then have inside: "M < length rs"
        using fresh by simp
      then have cons: "drop M rs = rs ! M # drop (Suc M) rs"
        by (simp add: Cons_nth_drop_Suc)
      obtain str0 t0 nw0 where r0: "rs ! M = (str0, t0, nw0)"
        by (cases "rs ! M") auto
      let ?out1 = "?outM\<lparr>dropped_o := 1, firstDrop_o := t0\<rparr>"
      have fullM: "max_o ?outM \<le> size_sq (queue_o ?outM)"
        using outM(3) by (simp add: size_sq_def)
      have first: "add tsf nw0 str0 t0 ?outM = ?out1"
        using fresh by (simp add: add_full [OF outM(1,2) fullM])
      have rest: "\<forall>r \<in> set (drop (Suc M) rs).
          difftime (fst (snd r)) (firstDrop_o ?out1) \<le> DROP_NOTIFY_SECONDS"
        using quiet cons r0 by (simp add: DROP_NOTIFY_SECONDS_def)
      have out1: "alive_o ?out1" "0 < max_o ?out1" "max_o ?out1 \<le> length (q_sq (queue_o ?out1))"
        "dropped_o ?out1 \<noteq> 0"
        using outM by simp_all
      have "adds tsf rs out = adds tsf (drop (Suc M) rs) ?out1"
        using first by (simp add: split cons r0)
      also have "\<dots> = ?out1\<lparr>dropped_o := dropped_o ?out1 + length (drop (Suc M) rs)\<rparr>"
        by (rule adds_quiet [OF out1 rest])
      finally show ?thesis
        using fresh Suc by simp
    qed
    from both show "q_sq (queue_o (adds tsf rs out)) = map fst (take M rs)" ..
    from both show "dropped_o (adds tsf rs out) = K" ..
  }
qed

theorem C3_drop_policy_witness:
  "alive_o (Output_ctor LINFO 2) \<and> max_o (Output_ctor LINFO 2) = 2
   \<and> take 2 (q_sq (queue_o (adds (\<lambda>fmt t. ''T'')
        [(''r1'', 0, 0), (''r2'', 0, 0), (''r3'', 1, 1), (''r4'', 2, 2), (''r5'', 10, 10)]
        (Output_ctor LINFO 2)))) = [''r1'', ''r2'']
   \<and> q_sq (queue_o (adds (\<lambda>fmt t. ''T'')
        [(''r1'', 0, 0), (''r2'', 0, 0), (''r3'', 1, 1), (''r4'', 2, 2), (''r5'', 10, 10)]
        (Output_ctor LINFO 2))) = [''r1'', ''r2'', ''T dropped 3 entries'']
   \<and> dropped_o (adds (\<lambda>fmt t. ''T'')
        [(''r1'', 0, 0), (''r2'', 0, 0), (''r3'', 1, 1), (''r4'', 2, 2), (''r5'', 10, 10)]
        (Output_ctor LINFO 2)) = 0
   \<and> q_sq (queue_o (adds (\<lambda>fmt t. ''T'')
        [(''r1'', 0, 0), (''r2'', 0, 0), (''r3'', 1, 1), (''r4'', 2, 2), (''r5'', 6, 6)]
        (Output_ctor LINFO 2))) = [''r1'', ''r2'']
   \<and> dropped_o (adds (\<lambda>fmt t. ''T'')
        [(''r1'', 0, 0), (''r2'', 0, 0), (''r3'', 1, 1), (''r4'', 2, 2), (''r5'', 6, 6)]
        (Output_ctor LINFO 2)) = 3"
proof -
  let ?out = "Output_ctor LINFO 2"
  let ?tsf = "\<lambda>(fmt::string) (t::time_t). ''T''"
  let ?late = "[(''r1'', 0, 0), (''r2'', 0, 0), (''r3'', 1, 1), (''r4'', 2, 2), (''r5'', 10::time_t, 10::time_t)]"
  let ?soon = "[(''r1'', 0, 0), (''r2'', 0, 0), (''r3'', 1, 1), (''r4'', 2, 2), (''r5'', 6::time_t, 6::time_t)]"
  have alive: "alive_o ?out" and depth: "max_o ?out = 2" and pos: "(0::nat) < 2"
    by (simp_all add: Output_ctor_def size_t_of_int_def)
  have fresh: "q_sq (queue_o ?out) = []" "dropped_o ?out = 0"
    by (simp_all add: Output_ctor_def SafeQueue_init_def)
  have len: "length ?late = 2 + 3" "length ?soon = 2 + 3"
    by simp_all
  have quiet: "\<forall>r \<in> set (drop 2 ?soon). difftime (fst (snd r)) (fst (snd (?soon ! 2))) \<le> 5"
    by (simp add: difftime_def)
  from C3_drop_policy [OF alive depth pos, of ?tsf 0 "[]" 0 ?late 3] fresh len(1)
  have kept: "take 2 (q_sq (queue_o (adds ?tsf ?late ?out))) = map fst (take 2 ?late)"
    by blast
  from C3_drop_policy [OF alive depth pos, of ?tsf 0 "[]" 0 ?soon 3] fresh len(2) quiet
  have soon: "q_sq (queue_o (adds ?tsf ?soon ?out)) = map fst (take 2 ?soon)
      \<and> dropped_o (adds ?tsf ?soon ?out) = 3"
    by blast
  have late: "q_sq (queue_o (adds ?tsf ?late ?out)) = [''r1'', ''r2'', ''T dropped 3 entries'']
      \<and> dropped_o (adds ?tsf ?late ?out) = 0"
    by (simp add: eval_defs)
  from alive depth kept soon late show ?thesis
    by simp
qed

subsection \<open>The line prefix\<close>

lemma strrchr_None: "c \<notin> set s \<Longrightarrow> strrchr s c = None"
  by (induction s) auto

lemma strrchr_last: "c \<notin> set name \<Longrightarrow> strrchr (dir @ c # name) c = Some (c # name)"
  by (induction dir) (simp_all add: strrchr_None)

text \<open>A path with no backslash: \<open>basename\<close> is what follows the last slash.\<close>

lemma basename_slashes_only:
  assumes "CHR 0x5C \<notin> set dir" "CHR 0x5C \<notin> set name" "CHR ''/'' \<notin> set name"
  shows "basename (dir @ CHR ''/'' # name) = name"
proof -
  have "strrchr (dir @ CHR ''/'' # name) (CHR 0x5C) = None"
    using assms by (simp add: strrchr_None)
  then show ?thesis
    using assms(3) by (simp add: basename_def strrchr_last)
qed

text \<open>
  C8. \<open>writer\<close> stages the time in the configured format (\<open>writer_lastLog\<close>; the format
  of a new \<open>Log\<close> is \<open>%Y%m%d.%H%M%S\<close>), a blank, \<open>basename\<close> of the file, a colon, the
  line, a blank, the name of the level and a blank. \<open>basename\<close> looks for the last
  backslash first and for the last slash only when the path has no backslash: on the
  path made of \<open>dir\<close>, a backslash and \<open>sub/file.cpp\<close> it returns \<open>sub/file.cpp\<close>, which
  still holds the separator \<open>/\<close>, and that is what the prefix shows.
\<close>

theorem C8_basename_stops_at_backslash:
  "basename (''dir'' @ [CHR 0x5C] @ ''sub/file.cpp'') = ''sub/file.cpp''
   \<and> ws_ll (lastLog_l (writer (\<lambda>fmt t. fmt) 0 LINFO (''dir'' @ [CHR 0x5C] @ ''sub/file.cpp'') 7 Log_ctor))
       = ''%Y%m%d.%H%M%S sub/file.cpp:7 INFO ''"
  by (simp add: eval_defs)

subsection \<open>The destructor of a sink\<close>

text \<open>
  From the step \<open>alive_ = false\<close> on, \<open>teardown_inv\<close> holds after every step of either
  thread.
\<close>

lemma inv_first:
  "teardown_inv tsf now out0 (sys_step tsf now Dtor (AtAlive, out0))"
  by (cases "pc_w (thread_o out0)")
     (simp_all add: teardown_inv_def dtor_step_def inflight_def Let_def)

lemma inv_worker:
  assumes "teardown_inv tsf now out0 (d, out)"
  shows "teardown_inv tsf now out0 (sys_step tsf now Worker (d, out))"
proof (cases "pc_w (thread_o out)")
  case LoopTest
  with assms show ?thesis
    by (cases d) (auto simp: teardown_inv_def worker_step_def Let_def)
next
  case InPop
  show ?thesis
  proof (cases "pop [] (queue_o out)")
    case None
    with assms InPop show ?thesis
      by (simp add: worker_step_def Let_def)
  next
    case (Some r)
    obtain t sq where r: "r = (t, sq)" by (cases r)
    from Some r have sq: "x_sq (queue_o out) \<and> sq = queue_o out
        \<or> \<not> x_sq (queue_o out) \<and> q_sq (queue_o out) = t # q_sq sq \<and> x_sq sq = x_sq (queue_o out)"
      by (auto simp: pop_def split: if_splits list.splits)
    have step: "sys_step tsf now Worker (d, out) =
        (d, out\<lparr>queue_o := sq, thread_o := (thread_o out)\<lparr>pc_w := Popped t\<rparr>\<rparr>)"
      using InPop Some r by (simp add: worker_step_def Let_def)
    from assms InPop sq show ?thesis
      unfolding step by (cases d) (auto simp: teardown_inv_def Let_def)
  qed
next
  case (Popped t)
  with assms show ?thesis
    by (cases d) (auto simp: teardown_inv_def worker_step_def Let_def)
next
  case (Writing t)
  with assms show ?thesis
    by (cases d) (auto simp: teardown_inv_def worker_step_def Let_def)
next
  case Finished
  with assms show ?thesis
    by (simp add: worker_step_def Let_def)
qed

lemma inv_dtor:
  assumes "teardown_inv tsf now out0 (d, out)"
  shows "teardown_inv tsf now out0 (sys_step tsf now Dtor (d, out))"
proof (cases d)
  case AtAlive
  with assms show ?thesis by (simp add: teardown_inv_def Let_def)
next
  case AtQuit
  with assms show ?thesis
    by (auto simp: teardown_inv_def dtor_step_def Let_def split: wpc.splits)
next
  case AtDrain
  with assms show ?thesis
    by (auto simp: teardown_inv_def dtor_step_def drain_def Let_def split: wpc.splits)
next
  case AtLog
  let ?N = "dropped_o out0 + length (q_sq (queue_o out0))"
  from assms AtLog have count: "?N = dropped_o out \<or> ?N = Suc (dropped_o out)"
    by (auto simp: teardown_inv_def Let_def)
  then show ?thesis
  proof
    assume "?N = dropped_o out"
    with assms AtLog show ?thesis
      by (auto simp: teardown_inv_def dtor_step_def logDropped_def push_def Let_def
          split: wpc.splits)
  next
    assume N: "?N = Suc (dropped_o out)"
    from assms AtLog show ?thesis
      by (simp add: teardown_inv_def dtor_step_def logDropped_def push_def Let_def N
          split: wpc.splits)
  qed
next
  case AtJoin
  with assms show ?thesis
    by (auto simp: teardown_inv_def dtor_step_def Let_def split: wpc.splits)
next
  case Gone
  with assms show ?thesis
    by (simp add: dtor_step_def)
qed

lemma inv_step:
  "teardown_inv tsf now out0 s \<Longrightarrow> teardown_inv tsf now out0 (sys_step tsf now u s)"
  by (cases s; cases u) (simp_all only: inv_worker inv_dtor)

lemma inv_run:
  "teardown_inv tsf now out0 s \<Longrightarrow> teardown_inv tsf now out0 (run tsf now sched s)"
  by (induction sched arbitrary: s) (simp_all add: inv_step)

lemma inv_after_alive:
  "teardown_inv tsf now out0 (run tsf now (Dtor # sched) (AtAlive, out0))"
  using inv_run [OF inv_first] by simp

lemma run_append: "run tsf now (us @ vs) s = run tsf now vs (run tsf now us s)"
  by (induction us arbitrary: s) simp_all

text \<open>
  The destructor returns: whatever has happened since \<open>alive_ = false\<close>, three turns of
  the destructor bring it to \<open>thread_.join()\<close>, three turns of the worker bring the
  worker out of its loop, and one more turn of the destructor ends the join.
\<close>

lemma fst_worker: "fst (sys_step tsf now Worker s) = fst s"
  by (cases s) (simp split: option.splits)

lemma dtor_advance:
  "fst s = AtQuit \<Longrightarrow> fst (sys_step tsf now Dtor s) = AtDrain"
  "fst s = AtDrain \<Longrightarrow> fst (sys_step tsf now Dtor s) = AtLog"
  "fst s = AtLog \<Longrightarrow> fst (sys_step tsf now Dtor s) = AtJoin"
  "fst s = AtJoin \<Longrightarrow> fst (sys_step tsf now Dtor s) = AtJoin \<or> fst (sys_step tsf now Dtor s) = Gone"
  "fst s = Gone \<Longrightarrow> fst (sys_step tsf now Dtor s) = Gone"
  by (cases s; simp add: dtor_step_def drain_def)+

lemma dtor_three:
  assumes "fst s \<noteq> AtAlive"
  shows "fst (run tsf now [Dtor, Dtor, Dtor] s) = AtJoin \<or> fst (run tsf now [Dtor, Dtor, Dtor] s) = Gone"
proof -
  let ?s1 = "sys_step tsf now Dtor s"
  let ?s2 = "sys_step tsf now Dtor ?s1"
  let ?s3 = "sys_step tsf now Dtor ?s2"
  have 1: "fst ?s1 = AtDrain \<or> fst ?s1 = AtLog \<or> fst ?s1 = AtJoin \<or> fst ?s1 = Gone"
    using assms dtor_advance [of s tsf now] by (cases "fst s") auto
  have 2: "fst ?s2 = AtLog \<or> fst ?s2 = AtJoin \<or> fst ?s2 = Gone"
    using 1 dtor_advance [of ?s1 tsf now] by auto
  have 3: "fst ?s3 = AtJoin \<or> fst ?s3 = Gone"
    using 2 dtor_advance [of ?s2 tsf now] by auto
  then show ?thesis by simp
qed

lemma worker_dead:
  assumes "\<not> alive_o out" "x_sq (queue_o out)"
  shows "\<exists>out'. sys_step tsf now Worker (d, out) = (d, out')
      \<and> \<not> alive_o out' \<and> queue_o out' = queue_o out \<and> dropped_o out' = dropped_o out
      \<and> (case pc_w (thread_o out) of
            LoopTest \<Rightarrow> pc_w (thread_o out') = Finished
          | InPop \<Rightarrow> pc_w (thread_o out') = Popped []
          | Popped t \<Rightarrow> pc_w (thread_o out') = LoopTest
          | Writing t \<Rightarrow> pc_w (thread_o out') = LoopTest
          | Finished \<Rightarrow> pc_w (thread_o out') = Finished)"
  using assms by (cases "pc_w (thread_o out)") (simp_all add: worker_step_def pop_def Let_def)

lemma worker_three:
  assumes "\<not> alive_o out" "x_sq (queue_o out)"
  shows "\<exists>out'. run tsf now [Worker, Worker, Worker] (d, out) = (d, out')
      \<and> \<not> alive_o out' \<and> queue_o out' = queue_o out \<and> dropped_o out' = dropped_o out
      \<and> pc_w (thread_o out') = Finished"
proof -
  from worker_dead [OF assms, of tsf now d] obtain o1 where
    1: "sys_step tsf now Worker (d, out) = (d, o1)" "\<not> alive_o o1" "queue_o o1 = queue_o out"
       "dropped_o o1 = dropped_o out"
    and p1: "pc_w (thread_o o1) = Finished \<or> pc_w (thread_o o1) = LoopTest
             \<or> pc_w (thread_o o1) = Popped []"
    by (cases "pc_w (thread_o out)") auto
  have x1: "x_sq (queue_o o1)" using 1(3) assms(2) by simp
  from worker_dead [OF 1(2) x1, of tsf now d] p1 obtain o2 where
    2: "sys_step tsf now Worker (d, o1) = (d, o2)" "\<not> alive_o o2" "queue_o o2 = queue_o o1"
       "dropped_o o2 = dropped_o o1"
    and p2: "pc_w (thread_o o2) = Finished \<or> pc_w (thread_o o2) = LoopTest"
    by auto
  have x2: "x_sq (queue_o o2)" using 2(3) x1 by simp
  from worker_dead [OF 2(2) x2, of tsf now d] p2 obtain o3 where
    3: "sys_step tsf now Worker (d, o2) = (d, o3)" "\<not> alive_o o3" "queue_o o3 = queue_o o2"
       "dropped_o o3 = dropped_o o2"
    and p3: "pc_w (thread_o o3) = Finished"
    by auto
  have "run tsf now [Worker, Worker, Worker] (d, out) = (d, o3)"
    by (simp add: 1(1) 2(1) 3(1) del: sys_step.simps)
  with 1 2 3 p3 show ?thesis by simp
qed

lemma join_step:
  "pc_w (thread_o out) = Finished \<Longrightarrow> d = AtJoin \<or> d = Gone \<Longrightarrow>
   sys_step tsf now Dtor (d, out) = (Gone, out)"
  by (auto simp: dtor_step_def)

lemma inv_dead:
  "teardown_inv tsf now out0 (d, out) \<Longrightarrow> d = AtJoin \<or> d = Gone \<Longrightarrow>
   \<not> alive_o out \<and> x_sq (queue_o out)"
  by (auto simp: teardown_inv_def Let_def)

lemma finish:
  assumes "teardown_inv tsf now out0 s"
  shows "fst (run tsf now [Dtor, Dtor, Dtor, Worker, Worker, Worker, Dtor] s) = Gone"
proof -
  obtain d out where s3: "run tsf now [Dtor, Dtor, Dtor] s = (d, out)"
    by (cases "run tsf now [Dtor, Dtor, Dtor] s")
  have "fst s \<noteq> AtAlive"
    using assms by (auto simp: teardown_inv_def Let_def)
  from dtor_three [OF this, of tsf now] s3 have d: "d = AtJoin \<or> d = Gone"
    by simp
  have "teardown_inv tsf now out0 (d, out)"
    using inv_run [OF assms, of "[Dtor, Dtor, Dtor]"] s3 by simp
  from inv_dead [OF this d] have dead: "\<not> alive_o out" "x_sq (queue_o out)"
    by simp_all
  from worker_three [OF dead, of tsf now d] obtain out' where
    w: "run tsf now [Worker, Worker, Worker] (d, out) = (d, out')" "pc_w (thread_o out') = Finished"
    by blast
  have "run tsf now [Dtor, Dtor, Dtor, Worker, Worker, Worker, Dtor] s =
      run tsf now [Dtor] (run tsf now [Worker, Worker, Worker] (run tsf now [Dtor, Dtor, Dtor] s))"
    using run_append [of tsf now "[Dtor, Dtor, Dtor]" "[Worker, Worker, Worker, Dtor]" s]
      run_append [of tsf now "[Worker, Worker, Worker]" "[Dtor]"]
    by (simp del: sys_step.simps)
  also have "\<dots> = run tsf now [Dtor] (d, out')"
    by (simp only: s3 w(1))
  also have "\<dots> = (Gone, out')"
    using join_step [OF w(2) d, of tsf now] by (simp del: sys_step.simps)
  finally show ?thesis by simp
qed

lemma dtor_completes:
  "\<exists>out'. Output_dtor tsf now (Dtor # sched @ [Dtor, Dtor, Dtor, Worker, Worker, Worker, Dtor]) out
     = Some out'"
proof -
  let ?s = "run tsf now (Dtor # sched) (AtAlive, out)"
  let ?r = "run tsf now (Dtor # sched @ [Dtor, Dtor, Dtor, Worker, Worker, Worker, Dtor]) (AtAlive, out)"
  have gone: "fst (run tsf now [Dtor, Dtor, Dtor, Worker, Worker, Worker, Dtor] ?s) = Gone"
    by (rule finish [OF inv_after_alive])
  have "?r = run tsf now [Dtor, Dtor, Dtor, Worker, Worker, Worker, Dtor] ?s"
    using run_append [of tsf now "Dtor # sched" "[Dtor, Dtor, Dtor, Worker, Worker, Worker, Dtor]"]
    by (simp del: run.simps)
  with gone have "fst ?r = Gone"
    by (simp only:)
  then obtain out' where "?r = (Gone, out')"
    by (cases ?r) (simp del: run.simps)
  then have "Output_dtor tsf now (Dtor # sched @ [Dtor, Dtor, Dtor, Worker, Worker, Worker, Dtor]) out
      = Some out'"
    by (simp add: Output_dtor_def del: run.simps)
  then show ?thesis ..
qed

lemma dtor_returned:
  assumes "Output_dtor tsf now (Dtor # sched) out = Some out'"
  shows "teardown_inv tsf now out (Gone, out')"
proof -
  from assms have "run tsf now (Dtor # sched) (AtAlive, out) = (Gone, out')"
    by (auto simp: Output_dtor_def Let_def simp del: run.simps split: prod.splits if_splits)
  with inv_after_alive [of tsf now out sched] show ?thesis
    by simp
qed

lemma inv_written:
  "teardown_inv tsf now out0 (d, out) \<Longrightarrow>
   wstream_o out = wstream_o out0 \<or> wstream_o out = wstream_o out0 @ inflight out0"
  by (auto simp: teardown_inv_def Let_def split: wpc.splits)

lemma inflight_short: "length (inflight out) \<le> 1"
  by (simp add: inflight_def split: wpc.splits)

lemma dtor_uninterrupted:
  "run tsf now [Dtor, Dtor, Dtor, Dtor] (AtAlive, out) =
     (AtJoin, out\<lparr>alive_o := False,
                  queue_o := \<lparr>q_sq = (if dropped_o out + length (q_sq (queue_o out)) = 0 then []
                                       else [dropped_line tsf now
                                               (dropped_o out + length (q_sq (queue_o out)))]),
                              x_sq = True\<rparr>,
                  dropped_o := 0\<rparr>)"
  by (simp add: dtor_step_def drain_def logDropped_def push_def)

lemma dtor_uninterrupted_returns:
  "\<exists>out'. Output_dtor tsf now [Dtor, Dtor, Dtor, Dtor, Worker, Worker, Worker, Dtor] out = Some out'
     \<and> pc_w (thread_o out') = Finished
     \<and> wstream_o out' = wstream_o out @ inflight out
     \<and> q_sq (queue_o out') =
          (if dropped_o out + length (q_sq (queue_o out)) = 0 then []
           else [dropped_line tsf now (dropped_o out + length (q_sq (queue_o out)))])"
proof -
  let ?N = "dropped_o out + length (q_sq (queue_o out))"
  let ?o4 = "out\<lparr>alive_o := False,
                  queue_o := \<lparr>q_sq = (if ?N = 0 then [] else [dropped_line tsf now ?N]),
                              x_sq = True\<rparr>,
                  dropped_o := 0\<rparr>"
  have dead: "\<not> alive_o ?o4" "x_sq (queue_o ?o4)"
    by simp_all
  from worker_three [OF dead, of tsf now AtJoin] obtain o7 where
    w: "run tsf now [Worker, Worker, Worker] (AtJoin, ?o4) = (AtJoin, o7)"
       "queue_o o7 = queue_o ?o4" "pc_w (thread_o o7) = Finished"
    by blast
  have "run tsf now [Dtor, Dtor, Dtor, Dtor, Worker, Worker, Worker, Dtor] (AtAlive, out) =
      run tsf now [Dtor] (run tsf now [Worker, Worker, Worker]
        (run tsf now [Dtor, Dtor, Dtor, Dtor] (AtAlive, out)))"
    using run_append [of tsf now "[Dtor, Dtor, Dtor, Dtor]" "[Worker, Worker, Worker, Dtor]"]
      run_append [of tsf now "[Worker, Worker, Worker]" "[Dtor]"]
    by (simp del: sys_step.simps)
  also have "\<dots> = run tsf now [Dtor] (AtJoin, o7)"
    by (simp only: dtor_uninterrupted w(1))
  also have "\<dots> = (Gone, o7)"
    using join_step [OF w(3), of AtJoin tsf now] by (simp del: sys_step.simps)
  finally have ret: "Output_dtor tsf now [Dtor, Dtor, Dtor, Dtor, Worker, Worker, Worker, Dtor] out
      = Some o7"
    by (simp add: Output_dtor_def del: run.simps)
  from dtor_returned [OF ret] have "wstream_o o7 = wstream_o out @ inflight out"
    by (auto simp: teardown_inv_def Let_def)
  with ret w(2,3) show ?thesis
    by simp
qed

lemma dtor_returned_facts:
  assumes "Output_dtor tsf now (Dtor # sched) out = Some out'"
  shows "pc_w (thread_o out') = Finished" "x_sq (queue_o out')" "\<not> alive_o out'"
    "wstream_o out' = wstream_o out @ inflight out" "dropped_o out' = 0"
    "\<exists>n. (n = dropped_o out + length (q_sq (queue_o out))
            \<or> n + 1 = dropped_o out + length (q_sq (queue_o out)))
         \<and> q_sq (queue_o out') = (if n = 0 then [] else [dropped_line tsf now n])"
proof -
  note inv = dtor_returned [OF assms]
  then show fin: "pc_w (thread_o out') = Finished" and "x_sq (queue_o out')" and "\<not> alive_o out'"
    and "dropped_o out' = 0"
    by (simp_all add: teardown_inv_def Let_def)
  from inv fin show "wstream_o out' = wstream_o out @ inflight out"
    by (simp add: teardown_inv_def Let_def)
  let ?N = "dropped_o out + length (q_sq (queue_o out))"
  from inv have "q_sq (queue_o out') = (if ?N = 0 then [] else [dropped_line tsf now ?N])
      \<or> 0 < ?N \<and> q_sq (queue_o out') = (if ?N = 1 then [] else [dropped_line tsf now (?N - 1)])"
    by (simp add: teardown_inv_def Let_def)
  then show "\<exists>n. (n = ?N \<or> n + 1 = ?N)
         \<and> q_sq (queue_o out') = (if n = 0 then [] else [dropped_line tsf now n])"
  proof
    assume "q_sq (queue_o out') = (if ?N = 0 then [] else [dropped_line tsf now ?N])"
    then show ?thesis by blast
  next
    assume a: "0 < ?N \<and> q_sq (queue_o out') = (if ?N = 1 then [] else [dropped_line tsf now (?N - 1)])"
    then have pos: "0 < ?N"
      and q: "q_sq (queue_o out') = (if ?N = 1 then [] else [dropped_line tsf now (?N - 1)])"
      by simp_all
    from pos have e1: "(?N - 1) + 1 = ?N"
      by arith
    from pos have e2: "(?N - 1 = 0) = (?N = 1)"
      by arith
    from q have "q_sq (queue_o out') = (if ?N - 1 = 0 then [] else [dropped_line tsf now (?N - 1)])"
      by (simp only: e2)
    with e1 show ?thesis by blast
  qed
qed

text \<open>
  C2, as the code has it. The destructor does not drain the queue to the destination.
  Under every schedule of the two threads, from the step \<open>alive_ = false\<close> on, the
  worker writes nothing but the one record it may hold between its test of \<open>alive_\<close> and
  its write (\<open>inflight\<close>, at most one record); no record that is in the queue at that
  step is written. The destructor returns once each thread has had a few more turns.
  When it has returned, the worker has left its loop, the queue holds no record: the
  records that were in it were discarded and counted as dropped, but for at most one
  that the worker took off the queue before \<open>quit\<close> and dropped without counting it
  (as it drops a record it had taken off the queue and not yet tested \<open>alive_\<close> for);
  what the queue holds is the line that reports the count, when the count is not zero.
\<close>

theorem C2_destructor_discards_pending:
  "(wstream_o (snd (run tsf now (Dtor # sched) (AtAlive, out))) = wstream_o out
     \<or> wstream_o (snd (run tsf now (Dtor # sched) (AtAlive, out))) = wstream_o out @ inflight out)
   \<and> length (inflight out) \<le> 1
   \<and> (\<exists>out'. Output_dtor tsf now
                (Dtor # sched @ [Dtor, Dtor, Dtor, Worker, Worker, Worker, Dtor]) out = Some out')
   \<and> (Output_dtor tsf now (Dtor # sched) out = Some out' \<longrightarrow>
        pc_w (thread_o out') = Finished
      \<and> wstream_o out' = wstream_o out @ inflight out
      \<and> dropped_o out' = 0
      \<and> (\<exists>n. (n = dropped_o out + length (q_sq (queue_o out))
               \<or> n + 1 = dropped_o out + length (q_sq (queue_o out)))
             \<and> q_sq (queue_o out') = (if n = 0 then [] else [dropped_line tsf now n])))"
proof (intro conjI impI)
  show "wstream_o (snd (run tsf now (Dtor # sched) (AtAlive, out))) = wstream_o out
     \<or> wstream_o (snd (run tsf now (Dtor # sched) (AtAlive, out))) = wstream_o out @ inflight out"
    using inv_written [of tsf now out "fst (run tsf now (Dtor # sched) (AtAlive, out))"
        "snd (run tsf now (Dtor # sched) (AtAlive, out))"] inv_after_alive [of tsf now out sched]
    by (simp del: run.simps)
next
  show "length (inflight out) \<le> 1"
    by (rule inflight_short)
next
  show "\<exists>out'. Output_dtor tsf now
                (Dtor # sched @ [Dtor, Dtor, Dtor, Worker, Worker, Worker, Dtor]) out = Some out'"
    by (rule dtor_completes)
next
  assume ret: "Output_dtor tsf now (Dtor # sched) out = Some out'"
  from dtor_returned_facts(1) [OF ret] show "pc_w (thread_o out') = Finished" .
  from dtor_returned_facts(4) [OF ret] show "wstream_o out' = wstream_o out @ inflight out" .
  from dtor_returned_facts(5) [OF ret] show "dropped_o out' = 0" .
  from dtor_returned_facts(6) [OF ret]
  show "\<exists>n. (n = dropped_o out + length (q_sq (queue_o out))
               \<or> n + 1 = dropped_o out + length (q_sq (queue_o out)))
             \<and> q_sq (queue_o out') = (if n = 0 then [] else [dropped_line tsf now n])" .
qed

text \<open>The definitions a concrete run of the two threads unfolds.\<close>

lemmas run_defs = worker_step_def dtor_step_def pop_def drain_def inflight_def Output_dtor_def
  FLUSH_SECONDS_def

theorem C2_destructor_discards_pending_witness:
  "Output_dtor (\<lambda>fmt t. ''T'') 0 [Dtor, Worker, Dtor, Dtor, Dtor, Worker, Dtor]
     (snd (run (\<lambda>fmt t. ''T'') 0 [Worker, Worker, Worker]
       (AtAlive, adds (\<lambda>fmt t. ''T'') [(''a'', 0, 0), (''b'', 0, 0)] (Output_ctor LINFO 0)))) \<noteq> None
   \<and> map_option wstream_o
       (Output_dtor (\<lambda>fmt t. ''T'') 0 [Dtor, Worker, Dtor, Dtor, Dtor, Worker, Dtor]
         (snd (run (\<lambda>fmt t. ''T'') 0 [Worker, Worker, Worker]
           (AtAlive, adds (\<lambda>fmt t. ''T'') [(''a'', 0, 0), (''b'', 0, 0)] (Output_ctor LINFO 0)))))
     = Some [''a'']
   \<and> map_option wstream_o
       (Output_dtor (\<lambda>fmt t. ''T'') 0 [Dtor, Worker, Dtor, Dtor, Dtor, Worker, Dtor]
         (snd (run (\<lambda>fmt t. ''T'') 0 [Worker, Worker]
           (AtAlive, adds (\<lambda>fmt t. ''T'') [(''a'', 0, 0), (''b'', 0, 0)] (Output_ctor LINFO 0)))))
     = Some []"
proof -
  let ?tsf = "\<lambda>(fmt::string) (t::time_t). ''T''"
  let ?sink = "adds ?tsf [(''a'', 0, 0), (''b'', 0, 0)] (Output_ctor LINFO 0)"
  let ?held = "snd (run ?tsf 0 [Worker, Worker, Worker] (AtAlive, ?sink))"
  let ?popped = "snd (run ?tsf 0 [Worker, Worker] (AtAlive, ?sink))"
  let ?sched = "[Worker, Dtor, Dtor, Dtor, Worker, Dtor]"
  have ret: "Output_dtor ?tsf 0 (Dtor # ?sched) ?held \<noteq> None"
    by (simp add: eval_defs run_defs)
  then obtain o1 where o1: "Output_dtor ?tsf 0 (Dtor # ?sched) ?held = Some o1"
    by blast
  have "Output_dtor ?tsf 0 (Dtor # ?sched) ?popped \<noteq> None"
    by (simp add: eval_defs run_defs)
  then obtain o2 where o2: "Output_dtor ?tsf 0 (Dtor # ?sched) ?popped = Some o2"
    by blast
  from C2_destructor_discards_pending [of ?tsf 0 ?sched ?held o1] o1
  have "wstream_o o1 = wstream_o ?held @ inflight ?held"
    by blast
  moreover have "wstream_o ?held @ inflight ?held = [''a'']"
    by (simp add: eval_defs run_defs)
  ultimately have w1: "wstream_o o1 = [''a'']"
    by (simp only:)
  from C2_destructor_discards_pending [of ?tsf 0 ?sched ?popped o2] o2
  have "wstream_o o2 = wstream_o ?popped @ inflight ?popped"
    by blast
  moreover have "wstream_o ?popped @ inflight ?popped = []"
    by (simp add: eval_defs run_defs)
  ultimately have w2: "wstream_o o2 = []"
    by (simp only:)
  from ret show ?thesis
    by (simp only: o1 o2 w1 w2 option.map) simp
qed

text \<open>
  A sink of unbounded depth takes five records; its worker has not run when the sink is
  destroyed, and the destructor reaches \<open>thread_.join()\<close> before the worker's next
  step. None of the five lines reaches the destination.
\<close>

theorem C2_five_pending_lost:
  "map_option wstream_o
     (Output_dtor (\<lambda>fmt t. ''T'') 0 [Dtor, Dtor, Dtor, Dtor, Worker, Dtor]
        (adds (\<lambda>fmt t. ''T'')
           [(''r1'', 0, 0), (''r2'', 0, 0), (''r3'', 0, 0), (''r4'', 0, 0), (''r5'', 0, 0)]
           (Output_ctor LINFO 0))) = Some []
   \<and> map_option (q_sq \<circ> queue_o)
     (Output_dtor (\<lambda>fmt t. ''T'') 0 [Dtor, Dtor, Dtor, Dtor, Worker, Dtor]
        (adds (\<lambda>fmt t. ''T'')
           [(''r1'', 0, 0), (''r2'', 0, 0), (''r3'', 0, 0), (''r4'', 0, 0), (''r5'', 0, 0)]
           (Output_ctor LINFO 0))) = Some [''T dropped 5 entries'']"
  by (simp add: eval_defs run_defs)

subsection \<open>Elements pushed after quit\<close>

lemma q_calls_keep:
  "x_sq sq \<Longrightarrow> Drain \<notin> set cs \<Longrightarrow> Quit \<notin> set cs \<Longrightarrow>
   \<exists>ys. q_sq (calls dflt cs sq) = q_sq sq @ ys"
proof (induction cs arbitrary: sq)
  case Nil
  then show ?case by simp
next
  case (Cons c cs)
  have x': "x_sq (call dflt c sq)"
    using Cons.prems(1) by (rule x_call)
  have "\<exists>zs. q_sq (call dflt c sq) = q_sq sq @ zs"
    using Cons.prems by (cases c) (simp_all add: push_def pop_def)
  then obtain zs where zs: "q_sq (call dflt c sq) = q_sq sq @ zs" ..
  from Cons.IH [OF x'] Cons.prems obtain ys
    where "q_sq (calls dflt cs (call dflt c sq)) = q_sq (call dflt c sq) @ ys"
    by auto
  with zs show ?case by simp
qed

text \<open>
  C9. On a queue that has been told to quit, \<open>push\<close> stores its element at the back as
  before, and every later \<open>pop\<close> returns the value-initialised element and leaves the
  queue as it is, also when the queue is not empty: as long as nobody drains the queue the
  element stays in it. The destructor of a sink pushes its line about the dropped
  records after \<open>quit\<close>. Under every schedule of the destructor and the worker, when
  the destructor has returned, the worker has left its loop, the queue holds that line
  and nothing else whenever a line was pushed (it was, when the drops counted before and
  the records in the queue were two or more), and the worker has written nothing but the
  record it held in flight. When the worker does not step before \<open>thread_.join()\<close>,
  the line counts every record that was in the queue.
\<close>

theorem C9_push_after_quit_never_popped:
  "(x_sq sq \<longrightarrow>
      q_sq (push t sq) = q_sq sq @ [t]
    \<and> pop dflt (push t sq) = Some (dflt, push t sq)
    \<and> pop dflt (calls dflt cs (push t sq)) = Some (dflt, calls dflt cs (push t sq))
    \<and> (Drain \<notin> set cs \<and> Quit \<notin> set cs \<longrightarrow>
         (\<exists>ys. q_sq (calls dflt cs (push t sq)) = q_sq sq @ t # ys)))
   \<and> (Output_dtor tsf now (Dtor # sched) out = Some out' \<longrightarrow>
        pc_w (thread_o out') = Finished
      \<and> x_sq (queue_o out')
      \<and> wstream_o out' = wstream_o out @ inflight out
      \<and> (q_sq (queue_o out') = []
          \<or> (\<exists>n. 0 < n \<and> n \<le> dropped_o out + length (q_sq (queue_o out))
                 \<and> q_sq (queue_o out') = [dropped_line tsf now n]))
      \<and> (2 \<le> dropped_o out + length (q_sq (queue_o out)) \<longrightarrow> q_sq (queue_o out') \<noteq> []))
   \<and> (dropped_o out + length (q_sq (queue_o out)) \<noteq> 0 \<longrightarrow>
        (\<exists>out'. Output_dtor tsf now [Dtor, Dtor, Dtor, Dtor, Worker, Worker, Worker, Dtor] out
                   = Some out'
           \<and> pc_w (thread_o out') = Finished
           \<and> q_sq (queue_o out') =
               [dropped_line tsf now (dropped_o out + length (q_sq (queue_o out)))]
           \<and> wstream_o out' = wstream_o out @ inflight out))"
proof -
  have queue_part: "q_sq (push t sq) = q_sq sq @ [t]
    \<and> pop dflt (push t sq) = Some (dflt, push t sq)
    \<and> pop dflt (calls dflt cs (push t sq)) = Some (dflt, calls dflt cs (push t sq))
    \<and> (Drain \<notin> set cs \<and> Quit \<notin> set cs \<longrightarrow>
         (\<exists>ys. q_sq (calls dflt cs (push t sq)) = q_sq sq @ t # ys))" if x: "x_sq sq"
  proof -
    have xp: "x_sq (push t sq)"
      using x by (simp add: push_def)
    have stays: "Drain \<notin> set cs \<and> Quit \<notin> set cs \<longrightarrow>
         (\<exists>ys. q_sq (calls dflt cs (push t sq)) = q_sq sq @ t # ys)"
      using q_calls_keep [OF xp, of cs dflt] by (auto simp: push_def)
    show ?thesis
      using pop_quit [OF xp] pop_quit [OF x_calls [OF xp]] stays by (simp add: push_def)
  qed
  let ?N = "dropped_o out + length (q_sq (queue_o out))"
  have any_schedule: "pc_w (thread_o out') = Finished
      \<and> x_sq (queue_o out')
      \<and> wstream_o out' = wstream_o out @ inflight out
      \<and> (q_sq (queue_o out') = []
          \<or> (\<exists>n. 0 < n \<and> n \<le> ?N \<and> q_sq (queue_o out') = [dropped_line tsf now n]))
      \<and> (2 \<le> ?N \<longrightarrow> q_sq (queue_o out') \<noteq> [])"
    if ret: "Output_dtor tsf now (Dtor # sched) out = Some out'"
  proof -
    from dtor_returned_facts(6) [OF ret] obtain n where
      n: "n = ?N \<or> n + 1 = ?N"
      and q: "q_sq (queue_o out') = (if n = 0 then [] else [dropped_line tsf now n])"
      by blast
    have "q_sq (queue_o out') = []
          \<or> (\<exists>n. 0 < n \<and> n \<le> ?N \<and> q_sq (queue_o out') = [dropped_line tsf now n])"
    proof (cases "n = 0")
      case True
      with q show ?thesis by simp
    next
      case False
      with n q have "0 < n \<and> n \<le> ?N \<and> q_sq (queue_o out') = [dropped_line tsf now n]"
        by auto
      then show ?thesis by blast
    qed
    moreover have "2 \<le> ?N \<longrightarrow> q_sq (queue_o out') \<noteq> []"
      using n q by auto
    ultimately show ?thesis
      using dtor_returned_facts(1,2,4) [OF ret] by blast
  qed
  have uninterrupted: "\<exists>out'. Output_dtor tsf now [Dtor, Dtor, Dtor, Dtor, Worker, Worker, Worker, Dtor] out
                   = Some out'
           \<and> pc_w (thread_o out') = Finished
           \<and> q_sq (queue_o out') = [dropped_line tsf now ?N]
           \<and> wstream_o out' = wstream_o out @ inflight out"
    if "?N \<noteq> 0"
    using that dtor_uninterrupted_returns [of tsf now out] by auto
  show ?thesis
    using queue_part any_schedule uninterrupted by blast
qed

theorem C9_push_after_quit_never_popped_witness:
  "pop [] (calls [] [Pop, Push ''b'', Pop] (push ''a'' \<lparr>q_sq = [], x_sq = True\<rparr>))
     = Some ([], \<lparr>q_sq = [''a'', ''b''], x_sq = True\<rparr>)
   \<and> map_option (\<lambda>out. (q_sq (queue_o out), wstream_o out))
      (Output_dtor (\<lambda>fmt t. ''T'') 0 [Dtor, Dtor, Dtor, Dtor, Worker, Worker, Worker, Dtor]
        (adds (\<lambda>fmt t. ''T'') [(''a'', 0, 0), (''b'', 0, 0)] (Output_ctor LINFO 0)))
     = Some ([''T dropped 2 entries''], [])
   \<and> map_option (\<lambda>out. (q_sq (queue_o out), wstream_o out))
      (Output_dtor (\<lambda>fmt t. ''T'') 0 [Dtor, Worker, Dtor, Dtor, Dtor, Worker, Dtor]
        (snd (run (\<lambda>fmt t. ''T'') 0 [Worker, Worker]
           (AtAlive, adds (\<lambda>fmt t. ''T'') [(''a'', 0, 0), (''b'', 0, 0)] (Output_ctor LINFO 0)))))
     = Some ([''T dropped 1 entries''], [])"
proof -
  let ?tsf = "\<lambda>(fmt::string) (t::time_t). ''T''"
  let ?sink = "adds ?tsf [(''a'', 0, 0), (''b'', 0, 0)] (Output_ctor LINFO 0)"
  let ?popped = "snd (run ?tsf 0 [Worker, Worker] (AtAlive, ?sink))"
  let ?sched = "[Worker, Dtor, Dtor, Dtor, Worker, Dtor]"
  let ?sq = "\<lparr>q_sq = ([] :: wstring list), x_sq = True\<rparr>"
  have x: "x_sq ?sq" and keep: "Drain \<notin> set [Pop, Push ''b'', Pop] \<and> Quit \<notin> set [Pop, Push ''b'', Pop]"
    by simp_all
  have pending: "dropped_o ?sink + length (q_sq (queue_o ?sink)) \<noteq> 0"
    by (simp add: eval_defs)
  have "Output_dtor ?tsf 0 (Dtor # ?sched) ?popped \<noteq> None"
    by (simp add: eval_defs run_defs)
  then obtain o2 where o2: "Output_dtor ?tsf 0 (Dtor # ?sched) ?popped = Some o2"
    by blast
  note inst = C9_push_after_quit_never_popped [of ?sq "''a''" "[]" "[Pop, Push ''b'', Pop]" ?tsf 0
      ?sched ?popped o2]
    and inst' = C9_push_after_quit_never_popped [of ?sq "''a''" "[]" "[Pop, Push ''b'', Pop]" ?tsf 0
      ?sched ?sink o2]
  from inst x have "pop [] (calls [] [Pop, Push ''b'', Pop] (push ''a'' ?sq))
      = Some ([], calls [] [Pop, Push ''b'', Pop] (push ''a'' ?sq))"
    by blast
  then have a: "pop [] (calls [] [Pop, Push ''b'', Pop] (push ''a'' ?sq))
      = Some ([], \<lparr>q_sq = [''a'', ''b''], x_sq = True\<rparr>)"
    by (simp add: push_def pop_def)
  from inst o2 have "wstream_o o2 = wstream_o ?popped @ inflight ?popped"
    by blast
  moreover have "wstream_o ?popped @ inflight ?popped = []"
    by (simp add: eval_defs run_defs)
  ultimately have w2: "wstream_o o2 = []"
    by (simp only:)
  have q2: "q_sq (queue_o o2) = [''T dropped 1 entries'']"
    using o2 by (auto simp: eval_defs run_defs split: if_splits)
  from inst' pending obtain o1 where
    o1: "Output_dtor ?tsf 0 [Dtor, Dtor, Dtor, Dtor, Worker, Worker, Worker, Dtor] ?sink = Some o1"
    and q1: "q_sq (queue_o o1) =
      [dropped_line ?tsf 0 (dropped_o ?sink + length (q_sq (queue_o ?sink)))]"
    and w1: "wstream_o o1 = wstream_o ?sink @ inflight ?sink"
    by blast
  have q1': "q_sq (queue_o o1) = [''T dropped 2 entries'']"
    unfolding q1 by (simp add: eval_defs)
  have w1': "wstream_o o1 = []"
    unfolding w1 by (simp add: eval_defs run_defs)
  show ?thesis
    by (simp only: a o1 o2 q1' w1' q2 w2 option.map simp_thms)
qed

subsection \<open>Level names\<close>

text \<open>
  C5, as the code has it. The table holds the seven defined levels, and the lookup of a
  level the table holds returns its name and leaves the table as it is. The lookup of any
  other level is \<open>operator[]\<close> on a key the table does not hold: it enters the level
  with an empty name and returns the empty string, and so does every later lookup of
  that level. The prefix of a line of such a level has no level name, only the two blanks
  around it, and the table has grown by the level. There is no placeholder text:
  \<open>INVALID\<close> is the name of level 0 only. This is what one thread does; the table is a
  global that \<open>writer\<close> uses without a lock.
\<close>

theorem C5_unknown_level_name_is_empty:
  "dom levelNames_init = {LINVALID, LTRACE, LDEBUG, LINFO, LERROR, LWARN, LCRITICAL}
   \<and> map (\<lambda>l. levelname l levelNames_init)
        [LINVALID, LTRACE, LDEBUG, LINFO, LWARN, LERROR, LCRITICAL]
      = map (\<lambda>n. (n, levelNames_init))
        [''INVALID'', ''TRACE'', ''DEBUG'', ''INFO'', ''WARN'', ''ERROR'', ''CRITICAL'']
   \<and> (names level = Some n \<longrightarrow> levelname level names = (n, names))
   \<and> (names level = None \<longrightarrow>
        levelname level names = ([], names(level \<mapsto> []))
      \<and> levelname level (snd (levelname level names)) = ([], snd (levelname level names)))
   \<and> (level \<notin> {LINVALID, LTRACE, LDEBUG, LINFO, LERROR, LWARN, LCRITICAL} \<longrightarrow>
        levelname level levelNames_init = ([], levelNames_init(level \<mapsto> []))
      \<and> ws_ll (lastLog_l (writer tsf now level file line Log_ctor))
          = tsf DEFAULT_TIME_FMT now @ '' '' @ basename file @ '':'' @ show_int line @ ''  ''
      \<and> levelNames_l (writer tsf now level file line Log_ctor) = levelNames_init(level \<mapsto> []))"
proof (intro conjI impI)
  show domain: "dom levelNames_init = {LINVALID, LTRACE, LDEBUG, LINFO, LERROR, LWARN, LCRITICAL}"
    by (auto simp: levelNames_init_def dom_def split: if_splits)
  show "map (\<lambda>l. levelname l levelNames_init)
        [LINVALID, LTRACE, LDEBUG, LINFO, LWARN, LERROR, LCRITICAL]
      = map (\<lambda>n. (n, levelNames_init))
        [''INVALID'', ''TRACE'', ''DEBUG'', ''INFO'', ''WARN'', ''ERROR'', ''CRITICAL'']"
    by (simp add: levelname_def levelNames_init_def LINVALID_def LTRACE_def LDEBUG_def LINFO_def
        LERROR_def LWARN_def LCRITICAL_def)
  {
    assume "names level = Some n"
    then show "levelname level names = (n, names)"
      by (simp add: levelname_def)
  }
  {
    assume none: "names level = None"
    then show "levelname level names = ([], names(level \<mapsto> []))"
      by (simp add: levelname_def)
    from none show "levelname level (snd (levelname level names)) = ([], snd (levelname level names))"
      by (simp add: levelname_def)
  }
  {
    assume "level \<notin> {LINVALID, LTRACE, LDEBUG, LINFO, LERROR, LWARN, LCRITICAL}"
    with domain have unknown: "levelNames_init level = None"
      by blast
    then show first: "levelname level levelNames_init = ([], levelNames_init(level \<mapsto> []))"
      by (simp add: levelname_def)
    from first show "ws_ll (lastLog_l (writer tsf now level file line Log_ctor))
          = tsf DEFAULT_TIME_FMT now @ '' '' @ basename file @ '':'' @ show_int line @ ''  ''"
      by (simp add: writer_lastLog Log_ctor_def)
    from first show "levelNames_l (writer tsf now level file line Log_ctor)
        = levelNames_init(level \<mapsto> [])"
      by (simp add: writer_def Log_ctor_def)
  }
qed

theorem C5_unknown_level_name_is_empty_witness:
  "(7::int) \<notin> {LINVALID, LTRACE, LDEBUG, LINFO, LERROR, LWARN, LCRITICAL}
   \<and> levelname 7 levelNames_init = ([], levelNames_init(7 \<mapsto> []))
   \<and> levelNames_init LWARN = Some ''WARN''
   \<and> levelname LWARN levelNames_init = (''WARN'', levelNames_init)
   \<and> (levelNames_init(7 \<mapsto> [])) 8 = None
   \<and> fst (levelname 8 (levelNames_init(7 \<mapsto> []))) = []"
proof -
  have notin: "(7::int) \<notin> {LINVALID, LTRACE, LDEBUG, LINFO, LERROR, LWARN, LCRITICAL}"
    by (simp add: LINVALID_def LTRACE_def LDEBUG_def LINFO_def LERROR_def LWARN_def LCRITICAL_def)
  have known: "levelNames_init LWARN = Some ''WARN''"
    by (simp add: levelNames_init_def LINVALID_def LTRACE_def LDEBUG_def LINFO_def LERROR_def
        LWARN_def LCRITICAL_def)
  have other: "(levelNames_init(7 \<mapsto> [])) 8 = None"
    by (simp add: levelNames_init_def LINVALID_def LTRACE_def LDEBUG_def LINFO_def LERROR_def
        LWARN_def LCRITICAL_def)
  from C5_unknown_level_name_is_empty [of levelNames_init 7 "''WARN''"] notin
  have name: "levelname 7 levelNames_init = ([], levelNames_init(7 \<mapsto> []))"
    by blast
  from C5_unknown_level_name_is_empty [of levelNames_init LWARN "''WARN''"] known
  have warn: "levelname LWARN levelNames_init = (''WARN'', levelNames_init)"
    by blast
  from C5_unknown_level_name_is_empty [of "levelNames_init(7 \<mapsto> [])" 8 "[]"] other
  have "levelname 8 (levelNames_init(7 \<mapsto> [])) = ([], (levelNames_init(7 \<mapsto> []))(8 \<mapsto> []))"
    by blast
  then have again: "fst (levelname 8 (levelNames_init(7 \<mapsto> []))) = []"
    by simp
  from notin name known warn other again show ?thesis
    by blast
qed

text \<open>
  Level 7 is not a defined level: its name is the empty string, not \<open>INVALID\<close>, and the
  prefix of its line shows two blanks after the line number.
\<close>

theorem C5_unknown_level_has_no_name:
  "(7::int) \<notin> {LINVALID, LTRACE, LDEBUG, LINFO, LERROR, LWARN, LCRITICAL}
   \<and> fst (levelname 7 levelNames_init) = []
   \<and> fst (levelname 7 levelNames_init) \<noteq> ''INVALID''
   \<and> ws_ll (lastLog_l (writer (\<lambda>fmt t. fmt) 0 7 ''main.cpp'' 12 Log_ctor))
       = ''%Y%m%d.%H%M%S main.cpp:12  ''"
  by (simp add: eval_defs)

end
